theory Spec2Isabelle
  imports Main
begin

section \<open>Data model of the FaceScanQR component\<close>

text \<open>
  The repository is one React component, \<^verbatim>\<open>FaceScanQR\<close>, in two variants: the
  enhanced one (face detection decides when to capture) and the basic one (a 3000 ms
  interval captures). The component state is the five \<^verbatim>\<open>useState\<close> cells; the two
  \<^verbatim>\<open>useRef\<close> cells, the media streams handed out by the browser, the local variables
  of the detection effect and the outstanding asynchronous work make up the rest of
  the world the code acts on.
\<close>

type_synonym time = int
type_synonym blob = string

record user_rec =
  name :: string
  mobile :: string
  role :: string

text \<open>The \<^verbatim>\<open>useState\<close> cells of one render (the basic variant has no \<^verbatim>\<open>modelLoaded\<close>
  and leaves it untouched).\<close>

record component =
  status :: string
  loading :: bool
  qrImage :: "string option"
  user :: "user_rec option"
  modelLoaded :: bool

text \<open>JavaScript truthiness of a value that is \<^verbatim>\<open>null\<close>/\<^verbatim>\<open>undefined\<close> or a string:
  the empty string is falsy. \<open>or_else\<close> is the operator \<^verbatim>\<open>||\<close> on such a value.\<close>

definition truthy :: "string option \<Rightarrow> bool" where
  "truthy v = (case v of None \<Rightarrow> False | Some s \<Rightarrow> s \<noteq> [])"

definition or_else :: "string option \<Rightarrow> string \<Rightarrow> string" where
  "or_else v d = (case v of None \<Rightarrow> d | Some s \<Rightarrow> if s = [] then d else s)"

text \<open>The status texts. The check mark U+2705 and the cross mark U+274C are written
  as their UTF-8 bytes.\<close>

definition check_mark :: string where
  "check_mark = [CHR 0xE2, CHR 0x9C, CHR 0x85]"

definition cross_mark :: string where
  "cross_mark = [CHR 0xE2, CHR 0x9D, CHR 0x8C]"

definition QR_GENERATED :: string where
  "QR_GENERATED = check_mark @ '' QR Generated''"

definition NOT_RECOGNIZED :: string where
  "NOT_RECOGNIZED = cross_mark @ '' Face not recognized''"

definition MODEL_ERROR :: string where
  "MODEL_ERROR = cross_mark @ '' Model Error''"

definition SCANNING :: string where
  "SCANNING = ''Scanning face...''"

definition IDLE :: string where
  "IDLE = ''Idle''"

definition SCAN_COOLDOWN :: time where
  "SCAN_COOLDOWN = 3000"

definition DETECTION_STABILITY_DELAY :: time where
  "DETECTION_STABILITY_DELAY = 1000"

text \<open>A \<^verbatim>\<open><video>\<close> element: the only property the code writes is \<^verbatim>\<open>srcObject\<close>, the
  handle of a media stream (an index into the streams of the world) or \<^verbatim>\<open>null\<close>.\<close>

record video =
  srcObject :: "nat option"

text \<open>What one animation frame reads from outside the component: the clock, the number
  of boxes the detector returns, and the playback state of the camera stream.\<close>

record frame =
  now :: time
  detections :: nat
  paused :: bool
  ended :: bool
  readyState :: nat

text \<open>One run of the detection effect (source lines 55-134): the render it closes over,
  its two local timers, and whether a call of \<^verbatim>\<open>detectFaces\<close> is outstanding (the first
  call made by the effect, or a \<^verbatim>\<open>requestAnimationFrame\<close> not yet fired or cancelled).\<close>

record effect =
  snap :: component
  lastScanTime :: time
  firstDetectionTime :: time
  animationFrame :: bool

text \<open>The asynchronous tail of \<^verbatim>\<open>scanFace\<close>: \<^verbatim>\<open>toBlob\<close> has been called and its callback
  is outstanding, or \<^verbatim>\<open>axios.post\<close> has been called and has not settled.\<close>

datatype capture = NoCapture | AwaitBlob | AwaitResponse

text \<open>How \<^verbatim>\<open>axios.post\<close> settles. A fulfilled response follows the interface of the
  remote service: \<^verbatim>\<open>{success: true, data: {qr_image, user}}\<close> or
  \<^verbatim>\<open>{success: false, message?}\<close>; a rejection carries \<^verbatim>\<open>err.response?.data?.message\<close>.\<close>

datatype api_outcome =
    Succeeded string user_rec
  | Refused "string option"
  | Failed "string option"

record world =
  st :: component
  videoRef :: "video option"
  canvasRef :: bool
  streams :: "bool list list"
  eff :: effect
  capture :: capture
  requests :: "blob list"
  scanCalls :: "time list"
  alerts :: nat
  modelsPending :: bool
  cameraPending :: bool
  mounted :: bool

text \<open>\<open>streams\<close> holds, for every stream \<^verbatim>\<open>getUserMedia\<close> has returned, the live flag of
  each of its tracks. \<open>requests\<close> logs the bodies posted to the API, \<open>scanCalls\<close> the clock
  value of every call of \<^verbatim>\<open>scanFace\<close> made by the detection loop (most recent first),
  \<open>alerts\<close> counts the calls of \<^verbatim>\<open>alert\<close>.\<close>

definition active_tracks :: "world \<Rightarrow> nat" where
  "active_tracks w = length (filter (\<lambda>t. t) (concat (streams w)))"

section \<open>Rendering and the effects\<close>

text \<open>The JSX (source lines 198-224) renders the video and the canvas only while
  \<^verbatim>\<open>!qrImage\<close>; the result card replaces them otherwise. React clears a ref when its
  element leaves the tree and sets it to the new element when one is created; a new
  \<^verbatim>\<open><video>\<close> has no \<^verbatim>\<open>srcObject\<close>.\<close>

definition render :: "world \<Rightarrow> world" where
  "render w =
     (if truthy (qrImage (st w)) then w\<lparr>videoRef := None, canvasRef := False\<rparr>
      else (case videoRef w of
              None \<Rightarrow> w\<lparr>videoRef := Some \<lparr>srcObject = None\<rparr>, canvasRef := True\<rparr>
            | Some v \<Rightarrow> w\<lparr>canvasRef := True\<rparr>))"

text \<open>The dependency array \<^verbatim>\<open>[modelLoaded, qrImage, loading, status]\<close> of the detection
  effect, compared between the render the running effect closes over and a new one.\<close>

definition same_deps :: "component \<Rightarrow> component \<Rightarrow> bool" where
  "same_deps a b =
     (modelLoaded a = modelLoaded b \<and> qrImage a = qrImage b \<and>
      loading a = loading b \<and> status a = status b)"

text \<open>The body of the detection effect up to its first call of \<^verbatim>\<open>detectFaces\<close>
  (source lines 56-60 and 129-131).\<close>

definition detection_effect :: "component \<Rightarrow> effect" where
  "detection_effect r =
     \<lparr>snap = r, lastScanTime = 0, firstDetectionTime = 0,
      animationFrame = (modelLoaded r \<and> \<not> truthy (qrImage r))\<rparr>"

text \<open>A commit: React renders, and when a dependency has changed it runs the cleanup
  of the detection effect (\<^verbatim>\<open>cancelAnimationFrame\<close>) and then the effect again.\<close>

definition commit :: "world \<Rightarrow> world" where
  "commit w =
     (let w1 = render w
      in if same_deps (snap (eff w1)) (st w1) then w1
         else w1\<lparr>eff := detection_effect (st w1)\<rparr>)"

section \<open>Camera acquisition (source lines 19-52)\<close>

definition startCamera :: "world \<Rightarrow> world" where
  "startCamera w = w\<lparr>cameraPending := True\<rparr>"

text \<open>\<^verbatim>\<open>getUserMedia\<close> resolves with a new stream of \<open>n\<close> live tracks; the enhanced variant
  binds it only \<^verbatim>\<open>if (videoRef.current)\<close>.\<close>

definition startCamera_granted :: "nat \<Rightarrow> world \<Rightarrow> world" where
  "startCamera_granted n w =
     (let h = length (streams w);
          w1 = w\<lparr>streams := streams w @ [replicate n True], cameraPending := False\<rparr>
      in case videoRef w1 of
           None \<Rightarrow> w1
         | Some v \<Rightarrow> w1\<lparr>videoRef := Some (v\<lparr>srcObject := Some h\<rparr>)\<rparr>)"

definition startCamera_denied :: "world \<Rightarrow> world" where
  "startCamera_denied w = w\<lparr>alerts := Suc (alerts w), cameraPending := False\<rparr>"

definition loadModels_resolved :: "world \<Rightarrow> world" where
  "loadModels_resolved w =
     startCamera (w\<lparr>st := (st w)\<lparr>modelLoaded := True, status := IDLE\<rparr>,
                    modelsPending := False\<rparr>)"

definition loadModels_rejected :: "world \<Rightarrow> world" where
  "loadModels_rejected w =
     w\<lparr>st := (st w)\<lparr>status := MODEL_ERROR\<rparr>, modelsPending := False\<rparr>"

text \<open>\<^verbatim>\<open>stopCamera\<close>: \<^verbatim>\<open>videoRef.current?.srcObject\<close>, and every track of that stream
  stopped when there is one.\<close>

definition stopCamera :: "world \<Rightarrow> world" where
  "stopCamera w =
     (case videoRef w of
        None \<Rightarrow> w
      | Some v \<Rightarrow>
          (case srcObject v of
             None \<Rightarrow> w
           | Some h \<Rightarrow>
               if h < length (streams w)
               then w\<lparr>streams := (streams w)[h := map (\<lambda>t. False) (streams w ! h)]\<rparr>
               else w))"

section \<open>Capture and submit (source lines 142-184 and 286-330)\<close>

text \<open>\<^verbatim>\<open>scanFace\<close> of the enhanced variant, called with the render \<open>r\<close> it closes over.
  Reading \<^verbatim>\<open>video.videoWidth\<close> of a null ref throws, after the two setters have run and
  before \<^verbatim>\<open>toBlob\<close> is reached.\<close>

definition scanFace :: "component \<Rightarrow> world \<Rightarrow> world" where
  "scanFace r w =
     (if loading r \<or> truthy (qrImage r) then w
      else let w1 = w\<lparr>st := (st w)\<lparr>loading := True, status := SCANNING\<rparr>\<rparr>
           in case videoRef w of
                None \<Rightarrow> w1
              | Some v \<Rightarrow> w1\<lparr>capture := AwaitBlob\<rparr>)"

text \<open>\<^verbatim>\<open>scanFace\<close> of the basic variant draws on the canvas of the page and returns
  early \<^verbatim>\<open>if (!video || !canvas)\<close>, after the two setters.\<close>

definition scanFace_basic :: "component \<Rightarrow> world \<Rightarrow> world" where
  "scanFace_basic r w =
     (if loading r \<or> truthy (qrImage r) then w
      else let w1 = w\<lparr>st := (st w)\<lparr>loading := True, status := SCANNING\<rparr>\<rparr>
           in if videoRef w = None \<or> \<not> canvasRef w then w1
              else w1\<lparr>capture := AwaitBlob\<rparr>)"

text \<open>The callback given to \<^verbatim>\<open>toBlob\<close>, up to the call of \<^verbatim>\<open>axios.post\<close>; the same in
  both variants.\<close>

definition toBlob_callback :: "blob option \<Rightarrow> world \<Rightarrow> world" where
  "toBlob_callback b w =
     (case b of
        None \<Rightarrow> w\<lparr>st := (st w)\<lparr>loading := False\<rparr>, capture := NoCapture\<rparr>
      | Some body \<Rightarrow> w\<lparr>requests := requests w @ [body], capture := AwaitResponse\<rparr>)"

text \<open>The \<^verbatim>\<open>try\<close>/\<^verbatim>\<open>catch\<close>/\<^verbatim>\<open>finally\<close> around the request, once it has settled; the same
  in both variants.\<close>

definition post_settled :: "api_outcome \<Rightarrow> world \<Rightarrow> world" where
  "post_settled out w =
     (let s = st w;
          s1 = (case out of
                  Succeeded q u \<Rightarrow> s\<lparr>qrImage := Some q, user := Some u, status := QR_GENERATED\<rparr>
                | Refused m \<Rightarrow> s\<lparr>status := or_else m NOT_RECOGNIZED\<rparr>
                | Failed m \<Rightarrow> s\<lparr>status := or_else m NOT_RECOGNIZED\<rparr>)
      in w\<lparr>st := s1\<lparr>loading := False\<rparr>, capture := NoCapture\<rparr>)"

text \<open>\<^verbatim>\<open>resetScan\<close>, the same in both variants.\<close>

definition resetScan :: "world \<Rightarrow> world" where
  "resetScan w = w\<lparr>st := (st w)\<lparr>qrImage := None, user := None, status := IDLE\<rparr>\<rparr>"

text \<open>The condition under which the effect of the basic variant sets its 3000 ms
  interval (source line 272).\<close>

definition interval_armed :: "component \<Rightarrow> bool" where
  "interval_armed r = (\<not> truthy (qrImage r) \<and> \<not> loading r \<and> status r \<noteq> QR_GENERATED)"

section \<open>The detection loop (source lines 62-127)\<close>

text \<open>The properties of the video element that \<^verbatim>\<open>detectFaces\<close> reads: an element with
  no \<^verbatim>\<open>srcObject\<close> is paused, not ended, and has \<^verbatim>\<open>readyState\<close> 0; with a stream bound
  they are those of the stream's playback.\<close>

definition el_paused :: "video \<Rightarrow> frame \<Rightarrow> bool" where
  "el_paused v f = (srcObject v = None \<or> paused f)"

definition el_ended :: "video \<Rightarrow> frame \<Rightarrow> bool" where
  "el_ended v f = (srcObject v \<noteq> None \<and> ended f)"

definition el_readyState :: "video \<Rightarrow> frame \<Rightarrow> nat" where
  "el_readyState v f = (if srcObject v = None then 0 else readyState f)"

text \<open>One call of \<^verbatim>\<open>detectFaces\<close>, taken to run to its end before anything else happens
  (the detector's promise resolves within the frame). Drawing on the overlay canvas
  changes nothing the code reads back and is left out.\<close>

definition detectFaces :: "frame \<Rightarrow> world \<Rightarrow> world" where
  "detectFaces f w =
     (let e = eff w; r = snap e
      in case videoRef w of
           None \<Rightarrow> w\<lparr>eff := e\<lparr>animationFrame := False\<rparr>\<rparr>
         | Some v \<Rightarrow>
             if \<not> canvasRef w \<or> \<not> modelLoaded r \<or> truthy (qrImage r)
             then w\<lparr>eff := e\<lparr>animationFrame := False\<rparr>\<rparr>
             else if el_paused v f \<or> el_ended v f \<or> el_readyState v f = 0 then w
             else if detections f > 0
             then (let first = (if firstDetectionTime e = 0 then now f
                                else firstDetectionTime e)
                   in if now f - first > DETECTION_STABILITY_DELAY \<and> \<not> loading r \<and>
                         status r \<noteq> QR_GENERATED \<and> now f - lastScanTime e > SCAN_COOLDOWN
                      then scanFace r
                             (w\<lparr>eff := e\<lparr>lastScanTime := now f, firstDetectionTime := 0\<rparr>,
                                scanCalls := now f # scanCalls w\<rparr>)
                      else w\<lparr>eff := e\<lparr>firstDetectionTime := first\<rparr>\<rparr>)
             else w\<lparr>eff := e\<lparr>firstDetectionTime := 0\<rparr>\<rparr>)"

text \<open>Consecutive calls of \<^verbatim>\<open>detectFaces\<close> within one run of the effect, one per frame.\<close>

fun detect_all :: "frame list \<Rightarrow> world \<Rightarrow> world" where
  "detect_all [] w = w"
| "detect_all (g # gs) w = detect_all gs (detectFaces g w)"

section \<open>The component as a transition system (enhanced variant)\<close>

datatype event =
    ModelsLoaded
  | ModelsFailed
  | CameraGranted nat
  | CameraDenied
  | Frame frame
  | BlobReady "blob option"
  | Responded api_outcome
  | ScanAgain
  | Unmount

text \<open>The first render and the first run of both effects: \<^verbatim>\<open>loadModels\<close> has been
  called and has not settled.\<close>

definition initial :: component where
  "initial = \<lparr>status = ''Initializing...'', loading = False, qrImage = None,
              user = None, modelLoaded = False\<rparr>"

definition mount :: world where
  "mount = \<lparr>st = initial, videoRef = Some \<lparr>srcObject = None\<rparr>, canvasRef = True,
            streams = [], eff = detection_effect initial, capture = NoCapture,
            requests = [], scanCalls = [], alerts = 0, modelsPending = True,
            cameraPending = False, mounted = True\<rparr>"

text \<open>Teardown. React removes the tree and clears the refs of its elements, and runs
  the cleanups of the two effects afterwards (React 17 and later, the versions whose
  batched updates the commits above follow): \<^verbatim>\<open>stopCamera\<close> reads a \<^verbatim>\<open>videoRef.current\<close>
  that is already null.\<close>

definition unmount :: "world \<Rightarrow> world" where
  "unmount w =
     (let detached = w\<lparr>videoRef := None, canvasRef := False\<rparr>
      in (stopCamera detached)\<lparr>eff := (eff w)\<lparr>animationFrame := False\<rparr>, mounted := False\<rparr>)"

text \<open>What a mounted component does on each event; every one is followed by a commit.
  The Scan Again button exists only on the result card. Nothing after teardown is
  modelled.\<close>

definition handle :: "event \<Rightarrow> world \<Rightarrow> world" where
  "handle ev w =
     (case ev of
        ModelsLoaded \<Rightarrow> if modelsPending w then loadModels_resolved w else w
      | ModelsFailed \<Rightarrow> if modelsPending w then loadModels_rejected w else w
      | CameraGranted n \<Rightarrow> if cameraPending w then startCamera_granted n w else w
      | CameraDenied \<Rightarrow> if cameraPending w then startCamera_denied w else w
      | Frame f \<Rightarrow> if animationFrame (eff w) then detectFaces f w else w
      | BlobReady b \<Rightarrow> if capture w = AwaitBlob then toBlob_callback b w else w
      | Responded out \<Rightarrow> if capture w = AwaitResponse then post_settled out w else w
      | ScanAgain \<Rightarrow> if truthy (qrImage (st w)) then resetScan w else w
      | Unmount \<Rightarrow> w)"

definition step :: "event \<Rightarrow> world \<Rightarrow> world" where
  "step ev w =
     (if \<not> mounted w then w
      else if ev = Unmount then unmount w
      else commit (handle ev w))"

fun run :: "event list \<Rightarrow> world \<Rightarrow> world" where
  "run [] w = w"
| "run (ev # evs) w = run evs (step ev w)"

section \<open>The basic variant as a transition system (second component of the source)\<close>

text \<open>The basic variant keeps the same state cells (without \<^verbatim>\<open>modelLoaded\<close>), refs, JSX
  and capture code; it has no detection effect, and the \<open>eff\<close> field stays as it is at
  mount. Its mount effect calls \<^verbatim>\<open>startCamera\<close> at once.\<close>

datatype basic_event =
    StreamGranted nat
  | StreamDenied
  | Tick time
  | BlobDone "blob option"
  | Settled api_outcome
  | ScanAgainClick
  | Teardown

definition initial_basic :: component where
  "initial_basic = \<lparr>status = ''Idle'', loading = False, qrImage = None,
                    user = None, modelLoaded = False\<rparr>"

definition mount_basic :: world where
  "mount_basic = \<lparr>st = initial_basic, videoRef = Some \<lparr>srcObject = None\<rparr>, canvasRef = True,
            streams = [], eff = detection_effect initial_basic, capture = NoCapture,
            requests = [], scanCalls = [], alerts = 0, modelsPending = False,
            cameraPending = True, mounted = True\<rparr>"

text \<open>\<^verbatim>\<open>startCamera\<close> of the basic variant assigns \<^verbatim>\<open>videoRef.current.srcObject\<close> without a
  test; on a null ref the assignment throws inside the \<^verbatim>\<open>try\<close> and the \<^verbatim>\<open>catch\<close> alerts.\<close>

definition startCamera_basic_granted :: "nat \<Rightarrow> world \<Rightarrow> world" where
  "startCamera_basic_granted n w =
     (let h = length (streams w);
          w1 = w\<lparr>streams := streams w @ [replicate n True], cameraPending := False\<rparr>
      in case videoRef w1 of
           None \<Rightarrow> w1\<lparr>alerts := Suc (alerts w1)\<rparr>
         | Some v \<Rightarrow> w1\<lparr>videoRef := Some (v\<lparr>srcObject := Some h\<rparr>)\<rparr>)"

text \<open>The auto-scan effect: its dependency array \<^verbatim>\<open>[qrImage, loading, status]\<close> holds all
  the state its closure and the \<^verbatim>\<open>scanFace\<close> it calls read, so between events the render
  they close over is the current one. The interval is set when the effect's condition
  holds, and each tick of it (at clock \<open>t\<close>, logged in \<open>scanCalls\<close>) calls
  \<^verbatim>\<open>scanFace\<close>.\<close>

definition tick :: "time \<Rightarrow> world \<Rightarrow> world" where
  "tick t w =
     (if interval_armed (st w)
      then scanFace_basic (st w) (w\<lparr>scanCalls := t # scanCalls w\<rparr>)
      else w)"

definition handle_basic :: "basic_event \<Rightarrow> world \<Rightarrow> world" where
  "handle_basic ev w =
     (case ev of
        StreamGranted n \<Rightarrow> if cameraPending w then startCamera_basic_granted n w else w
      | StreamDenied \<Rightarrow> if cameraPending w then startCamera_denied w else w
      | Tick t \<Rightarrow> tick t w
      | BlobDone b \<Rightarrow> if capture w = AwaitBlob then toBlob_callback b w else w
      | Settled out \<Rightarrow> if capture w = AwaitResponse then post_settled out w else w
      | ScanAgainClick \<Rightarrow> if truthy (qrImage (st w)) then resetScan w else w
      | Teardown \<Rightarrow> w)"

definition step_basic :: "basic_event \<Rightarrow> world \<Rightarrow> world" where
  "step_basic ev w =
     (if \<not> mounted w then w
      else if ev = Teardown then unmount w
      else render (handle_basic ev w))"

fun run_basic :: "basic_event list \<Rightarrow> world \<Rightarrow> world" where
  "run_basic [] w = w"
| "run_basic (ev # evs) w = run_basic evs (step_basic ev w)"

section \<open>Predicates used in the statements\<close>

text \<open>The video element is in the tree and a camera stream is bound to it.\<close>

definition bound :: "world \<Rightarrow> bool" where
  "bound w = (case videoRef w of None \<Rightarrow> False | Some v \<Rightarrow> srcObject v \<noteq> None)"

text \<open>What holds of the outstanding submission in every state the component reaches:
  nothing is in flight before the models have loaded, and while something is in flight
  the loading flag is set, no result is displayed and, until teardown, the camera is
  bound.\<close>

definition in_flight_ok :: "world \<Rightarrow> bool" where
  "in_flight_ok w =
     ((modelLoaded (st w) \<or> capture w = NoCapture) \<and>
      (\<not> modelsPending w \<or> \<not> modelLoaded (st w)) \<and>
      (capture w = NoCapture \<or>
         loading (st w) \<and> \<not> truthy (qrImage (st w)) \<and> (bound w \<or> \<not> mounted w)))"

text \<open>The running detection effect closes over the current render, and its cooldown
  record is zero.\<close>

definition consistent :: "world \<Rightarrow> bool" where
  "consistent w =
     (same_deps (snap (eff w)) (st w) \<and> lastScanTime (eff w) = 0 \<and> in_flight_ok w)"

text \<open>A frame on which the stream plays and the detector returns at least one box.\<close>

definition showing_face :: "frame \<Rightarrow> bool" where
  "showing_face f = (detections f > 0 \<and> \<not> paused f \<and> \<not> ended f \<and> readyState f \<noteq> 0)"

text \<open>The detection loop is armed: the effect has just been started on a render with
  the models loaded, nothing in flight, no result, and the camera is bound.\<close>

definition armed :: "world \<Rightarrow> bool" where
  "armed w =
     (mounted w \<and> bound w \<and> canvasRef w \<and> modelLoaded (st w) \<and> \<not> loading (st w) \<and>
      \<not> truthy (qrImage (st w)) \<and> status (st w) \<noteq> QR_GENERATED \<and>
      eff w = detection_effect (st w))"

text \<open>This call of \<^verbatim>\<open>detectFaces\<close> gets as far as the detector (source lines 63-78).\<close>

definition reaches_detector :: "frame \<Rightarrow> world \<Rightarrow> bool" where
  "reaches_detector f w =
     (case videoRef w of
        None \<Rightarrow> False
      | Some v \<Rightarrow>
          canvasRef w \<and> modelLoaded (snap (eff w)) \<and> \<not> truthy (qrImage (snap (eff w))) \<and>
          \<not> el_paused v f \<and> \<not> el_ended v f \<and> el_readyState v f \<noteq> 0)"

text \<open>A result has been received and nothing is in flight: the status is the success
  marker, in the state and in the render the running effect closes over.\<close>

definition halted :: "world \<Rightarrow> bool" where
  "halted w =
     (status (st w) = QR_GENERATED \<and> status (snap (eff w)) = QR_GENERATED \<and>
      capture w = NoCapture \<and> \<not> modelsPending w)"

text \<open>The number of captures whose \<^verbatim>\<open>toBlob\<close> callback has not run yet: one or none.\<close>

definition outstanding :: "world \<Rightarrow> nat" where
  "outstanding w = (if capture w = AwaitBlob then 1 else 0)"

text \<open>What holds in every state the basic variant reaches: while something is in
  flight the loading flag is set, and until teardown the video and the canvas are in the
  tree whenever no result is displayed.\<close>

definition basic_ok :: "world \<Rightarrow> bool" where
  "basic_ok w =
     ((capture w = NoCapture \<or> loading (st w)) \<and>
      (\<not> mounted w \<or> truthy (qrImage (st w)) \<or> videoRef w \<noteq> None \<and> canvasRef w))"

subsection \<open>Sample inputs\<close>

definition face_at :: "time \<Rightarrow> frame" where
  "face_at t = \<lparr>now = t, detections = 1, paused = False, ended = False, readyState = 4\<rparr>"

definition empty_at :: "time \<Rightarrow> frame" where
  "empty_at t = \<lparr>now = t, detections = 0, paused = False, ended = False, readyState = 4\<rparr>"

definition asha :: user_rec where
  "asha = \<lparr>name = ''Asha'', mobile = ''9000000001'', role = ''student''\<rparr>"

text \<open>Mount, models loaded, camera granted with one track, a face first seen at
  10000 and still there at 11001: the loop calls \<^verbatim>\<open>scanFace\<close> at 11001.\<close>

definition first_trigger :: "event list" where
  "first_trigger =
     [ModelsLoaded, CameraGranted 1, Frame (face_at 10000), Frame (face_at 11001)]"

text \<open>The same history a moment earlier: the face has been seen once, at 10000.\<close>

definition partial_progress :: world where
  "partial_progress = run [ModelsLoaded, CameraGranted 1, Frame (face_at 10000)] mount"

text \<open>The first submission has been posted and has not settled.\<close>

definition awaiting_response :: world where
  "awaiting_response = run (first_trigger @ [BlobReady (Some ''jpeg'')]) mount"

text \<open>The first submission has succeeded: the result card is displayed.\<close>

definition result_shown :: world where
  "result_shown =
     step (Responded (Succeeded ''data:image/png;base64,AAAA'' asha)) awaiting_response"

text \<open>The basic variant with its first submission posted: camera granted, a tick at
  3000, a blob.\<close>

definition basic_in_flight :: world where
  "basic_in_flight =
     run_basic [StreamGranted 1, Tick 3000, BlobDone (Some ''jpeg'')] mount_basic"

subsection \<open>The camera in reachable states\<close>

text \<open>\<^verbatim>\<open>loadModels\<close> and \<^verbatim>\<open>getUserMedia\<close> have both settled.\<close>

definition camera_settled :: "world \<Rightarrow> bool" where
  "camera_settled w = (\<not> cameraPending w \<and> \<not> modelsPending w)"

text \<open>The camera is requested only after the models have loaded; it is bound, or a
  result displayed, only after the request has settled; and the video element is out
  of the tree while a result is displayed.\<close>

definition camera_ok :: "world \<Rightarrow> bool" where
  "camera_ok w =
     ((\<not> cameraPending w \<or> \<not> modelsPending w) \<and>
      (camera_settled w \<or> \<not> bound w \<and> \<not> truthy (qrImage (st w))) \<and>
      (videoRef w = None \<or> \<not> truthy (qrImage (st w))))"

text \<open>The video element in the tree has no stream, no request for one is outstanding,
  and nothing is in flight.\<close>

definition camera_lost :: "world \<Rightarrow> bool" where
  "camera_lost w =
     (\<not> bound w \<and> camera_settled w \<and> capture w = NoCapture \<and> \<not> truthy (qrImage (st w)))"

section \<open>Basic facts about commits and handlers\<close>

lemma run_append: "run (xs @ ys) w = run ys (run xs w)"
  by (induction xs arbitrary: w) simp_all

lemma commit_fields [simp]:
  "st (commit w) = st w" "capture (commit w) = capture w"
  "modelsPending (commit w) = modelsPending w" "scanCalls (commit w) = scanCalls w"
  "requests (commit w) = requests w" "mounted (commit w) = mounted w"
  "streams (commit w) = streams w" "cameraPending (commit w) = cameraPending w"
  by (simp_all add: commit_def Let_def render_def split: option.splits)

lemma commit_deps: "same_deps (snap (eff (commit w))) (st w)"
  by (simp add: commit_def Let_def render_def detection_effect_def same_deps_def
      split: option.splits)

lemma commit_restart:
  "\<not> same_deps (snap (eff w)) (st w) \<Longrightarrow> eff (commit w) = detection_effect (st w)"
  by (simp add: commit_def Let_def render_def split: option.splits)

lemma commit_keep:
  "same_deps (snap (eff w)) (st w) \<Longrightarrow> eff (commit w) = eff w"
  by (simp add: commit_def Let_def render_def split: option.splits)

lemma commit_lastScanTime:
  "lastScanTime (eff w) = 0 \<or> \<not> same_deps (snap (eff w)) (st w) \<Longrightarrow>
   lastScanTime (eff (commit w)) = 0"
  by (cases "same_deps (snap (eff w)) (st w)")
    (simp_all add: commit_keep commit_restart detection_effect_def)

lemma commit_bound: "\<not> truthy (qrImage (st w)) \<Longrightarrow> bound (commit w) = bound w"
  by (simp add: commit_def Let_def render_def bound_def split: option.splits)

lemma commit_canvas: "\<not> truthy (qrImage (st w)) \<Longrightarrow> canvasRef (commit w)"
  by (simp add: commit_def Let_def render_def split: option.splits)

lemma commit_videoRef_shown: "truthy (qrImage (st w)) \<Longrightarrow> videoRef (commit w) = None"
  by (simp add: commit_def Let_def render_def)

lemma commit_not_bound_shown: "truthy (qrImage (st w)) \<Longrightarrow> \<not> bound (commit w)"
  by (simp add: bound_def commit_videoRef_shown)

lemma stopCamera_fields [simp]:
  "st (stopCamera w) = st w" "capture (stopCamera w) = capture w"
  "modelsPending (stopCamera w) = modelsPending w" "eff (stopCamera w) = eff w"
  "videoRef (stopCamera w) = videoRef w" "scanCalls (stopCamera w) = scanCalls w"
  by (simp_all add: stopCamera_def split: option.splits)

lemma stopCamera_pending [simp]:
  "cameraPending (stopCamera w) = cameraPending w" "canvasRef (stopCamera w) = canvasRef w"
  "mounted (stopCamera w) = mounted w" "requests (stopCamera w) = requests w"
  by (simp_all add: stopCamera_def split: option.splits)

lemma render_fields [simp]:
  "st (render w) = st w" "capture (render w) = capture w" "scanCalls (render w) = scanCalls w"
  "requests (render w) = requests w" "mounted (render w) = mounted w"
  "streams (render w) = streams w"
  by (simp_all add: render_def split: option.splits)

lemma render_refs:
  "\<not> truthy (qrImage (st w)) \<Longrightarrow> videoRef (render w) \<noteq> None \<and> canvasRef (render w)"
  by (simp add: render_def split: option.splits)

lemma outstanding_commit [simp]: "outstanding (commit w) = outstanding w"
  by (simp add: outstanding_def)

lemma outstanding_render [simp]: "outstanding (render w) = outstanding w"
  by (simp add: outstanding_def)

lemma outstanding_unmount [simp]: "outstanding (unmount w) = outstanding w"
  by (simp add: outstanding_def unmount_def stopCamera_def Let_def)

lemma unmount_fields [simp]:
  "st (unmount w) = st w" "capture (unmount w) = capture w"
  "modelsPending (unmount w) = modelsPending w" "cameraPending (unmount w) = cameraPending w"
  "scanCalls (unmount w) = scanCalls w" "requests (unmount w) = requests w"
  "streams (unmount w) = streams w" "videoRef (unmount w) = None"
  "mounted (unmount w) = False" "eff (unmount w) = (eff w)\<lparr>animationFrame := False\<rparr>"
  by (simp_all add: unmount_def stopCamera_def Let_def)

text \<open>The four ways a call of \<^verbatim>\<open>detectFaces\<close> can end.\<close>

lemma detectFaces_cases:
  "detectFaces f w = w\<lparr>eff := (eff w)\<lparr>animationFrame := False\<rparr>\<rparr> \<or>
   detectFaces f w = w \<or>
   (\<exists>t. detectFaces f w = w\<lparr>eff := (eff w)\<lparr>firstDetectionTime := t\<rparr>\<rparr>) \<or>
   (bound w \<and> modelLoaded (snap (eff w)) \<and> \<not> loading (snap (eff w)) \<and>
    \<not> truthy (qrImage (snap (eff w))) \<and> status (snap (eff w)) \<noteq> QR_GENERATED \<and>
    detectFaces f w =
      w\<lparr>eff := (eff w)\<lparr>lastScanTime := now f, firstDetectionTime := 0\<rparr>,
        scanCalls := now f # scanCalls w,
        st := (st w)\<lparr>loading := True, status := SCANNING\<rparr>, capture := AwaitBlob\<rparr>)"
proof (cases "videoRef w")
  case None
  then show ?thesis by (simp add: detectFaces_def)
next
  case (Some v)
  let ?r = "snap (eff w)"
  show ?thesis
  proof (cases "\<not> canvasRef w \<or> \<not> modelLoaded ?r \<or> truthy (qrImage ?r)")
    case True
    then have "detectFaces f w = w\<lparr>eff := (eff w)\<lparr>animationFrame := False\<rparr>\<rparr>"
      using Some by (simp add: detectFaces_def)
    then show ?thesis by blast
  next
    case live: False
    show ?thesis
    proof (cases "el_paused v f \<or> el_ended v f \<or> el_readyState v f = 0")
      case True
      then have "detectFaces f w = w"
        using Some live by (simp add: detectFaces_def)
      then show ?thesis by blast
    next
      case playing: False
      then have b: "bound w"
        using Some by (simp add: bound_def el_paused_def)
      show ?thesis
      proof (cases "detections f > 0")
        case False
        then have "detectFaces f w = w\<lparr>eff := (eff w)\<lparr>firstDetectionTime := 0\<rparr>\<rparr>"
          using Some live playing by (simp add: detectFaces_def)
        then show ?thesis by blast
      next
        case face: True
        let ?first = "if firstDetectionTime (eff w) = 0 then now f
                      else firstDetectionTime (eff w)"
        show ?thesis
        proof (cases "now f - ?first > DETECTION_STABILITY_DELAY \<and> \<not> loading ?r \<and>
                      status ?r \<noteq> QR_GENERATED \<and> now f - lastScanTime (eff w) > SCAN_COOLDOWN")
          case False
          then have "detectFaces f w = w\<lparr>eff := (eff w)\<lparr>firstDetectionTime := ?first\<rparr>\<rparr>"
            using Some live playing face
            by (auto simp: detectFaces_def Let_def DETECTION_STABILITY_DELAY_def)
          then show ?thesis by blast
        next
          case True
          then have "detectFaces f w =
              w\<lparr>eff := (eff w)\<lparr>lastScanTime := now f, firstDetectionTime := 0\<rparr>,
                scanCalls := now f # scanCalls w,
                st := (st w)\<lparr>loading := True, status := SCANNING\<rparr>, capture := AwaitBlob\<rparr>"
            using Some live playing face
            by (auto simp: detectFaces_def scanFace_def Let_def DETECTION_STABILITY_DELAY_def)
          then show ?thesis using b live True by blast
        qed
      qed
    qed
  qed
qed

text \<open>The loop calls \<^verbatim>\<open>scanFace\<close> only on a frame with a face, more than one stability
  delay after the frame that started the timer.\<close>

lemma trigger_needs_stability:
  assumes "scanCalls (detectFaces f w) \<noteq> scanCalls w"
  shows "detections f > 0 \<and> firstDetectionTime (eff w) \<noteq> 0 \<and>
         now f - firstDetectionTime (eff w) > DETECTION_STABILITY_DELAY"
  using assms
  by (auto simp: detectFaces_def Let_def DETECTION_STABILITY_DELAY_def
      split: option.splits if_splits)

theorem trigger_needs_stability_witness:
  "scanCalls (detectFaces (face_at 11001) partial_progress) \<noteq> scanCalls partial_progress \<and>
   detections (face_at 11001) > 0 \<and> firstDetectionTime (eff partial_progress) = 10000 \<and>
   now (face_at 11001) - firstDetectionTime (eff partial_progress) > DETECTION_STABILITY_DELAY"
proof -
  have t: "scanCalls (detectFaces (face_at 11001) partial_progress) \<noteq> scanCalls partial_progress"
    "firstDetectionTime (eff partial_progress) = 10000"
    by code_simp+
  show ?thesis
    using t trigger_needs_stability [OF t(1)] by simp
qed

lemma step_trigger:
  assumes "scanCalls (step (Frame f) w) \<noteq> scanCalls w"
  shows "mounted w \<and>
         step (Frame f) w =
           commit (w\<lparr>eff := (eff w)\<lparr>lastScanTime := now f, firstDetectionTime := 0\<rparr>,
                     scanCalls := now f # scanCalls w,
                     st := (st w)\<lparr>loading := True, status := SCANNING\<rparr>,
                     capture := AwaitBlob\<rparr>)"
proof -
  have m: "mounted w" "animationFrame (eff w)"
    using assms by (auto simp: step_def handle_def split: if_splits)
  then have s: "step (Frame f) w = commit (detectFaces f w)"
    by (simp add: step_def handle_def)
  with assms have "scanCalls (detectFaces f w) \<noteq> scanCalls w" by simp
  with detectFaces_cases [of f w] have
    "detectFaces f w =
      w\<lparr>eff := (eff w)\<lparr>lastScanTime := now f, firstDetectionTime := 0\<rparr>,
        scanCalls := now f # scanCalls w,
        st := (st w)\<lparr>loading := True, status := SCANNING\<rparr>, capture := AwaitBlob\<rparr>"
    by auto
  with s m show ?thesis by simp
qed

section \<open>What holds in every reachable state\<close>

lemma consistent_mount: "consistent mount"
  by (simp add: consistent_def in_flight_ok_def mount_def initial_def detection_effect_def
      same_deps_def)

lemma commit_in_flight_ok: "in_flight_ok w \<Longrightarrow> in_flight_ok (commit w)"
  by (auto simp: in_flight_ok_def commit_bound)

lemma commit_consistent:
  "in_flight_ok w \<Longrightarrow> lastScanTime (eff w) = 0 \<or> \<not> same_deps (snap (eff w)) (st w) \<Longrightarrow>
   consistent (commit w)"
  by (simp add: consistent_def commit_deps commit_lastScanTime commit_in_flight_ok)

lemma handle_in_flight_ok:
  assumes c: "consistent w"
  shows "in_flight_ok (handle ev w) \<and>
     (lastScanTime (eff (handle ev w)) = 0 \<or>
      \<not> same_deps (snap (eff (handle ev w))) (st (handle ev w)))"
proof (cases ev)
  case (Frame f)
  show ?thesis
    using detectFaces_cases [of f w] c unfolding Frame
    by (auto simp: handle_def consistent_def in_flight_ok_def same_deps_def bound_def)
next
  case ModelsLoaded
  show ?thesis using c unfolding ModelsLoaded
    by (auto simp: handle_def consistent_def in_flight_ok_def bound_def
        loadModels_resolved_def startCamera_def)
next
  case ModelsFailed
  show ?thesis using c unfolding ModelsFailed
    by (auto simp: handle_def consistent_def in_flight_ok_def bound_def loadModels_rejected_def)
next
  case (CameraGranted n)
  show ?thesis using c unfolding CameraGranted
    by (auto simp: handle_def consistent_def in_flight_ok_def bound_def
        startCamera_granted_def Let_def split: option.splits)
next
  case CameraDenied
  show ?thesis using c unfolding CameraDenied
    by (auto simp: handle_def consistent_def in_flight_ok_def bound_def startCamera_denied_def)
next
  case (BlobReady b)
  show ?thesis using c unfolding BlobReady
    by (auto simp: handle_def consistent_def in_flight_ok_def bound_def toBlob_callback_def
        split: option.splits)
next
  case (Responded out)
  show ?thesis using c unfolding Responded
    by (auto simp: handle_def consistent_def in_flight_ok_def bound_def post_settled_def
        Let_def split: api_outcome.splits)
next
  case ScanAgain
  show ?thesis using c unfolding ScanAgain
    by (auto simp: handle_def consistent_def in_flight_ok_def bound_def resetScan_def)
next
  case Unmount
  show ?thesis using c unfolding Unmount
    by (auto simp: handle_def consistent_def)
qed

lemma consistent_step:
  assumes c: "consistent w"
  shows "consistent (step ev w)"
proof -
  have u: "consistent (unmount w)"
    using c by (auto simp: consistent_def in_flight_ok_def bound_def)
  show ?thesis
    using c u handle_in_flight_ok [OF c, of ev]
    by (auto simp: step_def intro: commit_consistent)
qed

lemma consistent_run: "consistent w \<Longrightarrow> consistent (run evs w)"
  by (induction evs arbitrary: w) (simp_all add: consistent_step)

text \<open>In particular the cooldown record \<open>lastScanTime\<close> is zero in every state the
  component reaches: the call of \<^verbatim>\<open>scanFace\<close> that follows its assignment changes
  \<^verbatim>\<open>loading\<close>, and the commit restarts the effect.\<close>

lemma consistent_reachable: "consistent (run evs mount)"
  by (simp add: consistent_run consistent_mount)

lemma cooldown_record_always_zero: "lastScanTime (eff (run evs mount)) = 0"
  using consistent_reachable [of evs] by (simp add: consistent_def)

lemma commit_camera_ok:
  assumes "\<not> cameraPending w \<or> \<not> modelsPending w"
    and "camera_settled w \<or> \<not> bound w \<and> \<not> truthy (qrImage (st w))"
  shows "camera_ok (commit w)"
proof (cases "truthy (qrImage (st w))")
  case True
  then show ?thesis
    using assms by (auto simp: camera_ok_def camera_settled_def commit_videoRef_shown)
next
  case False
  then show ?thesis
    using assms by (auto simp: camera_ok_def camera_settled_def commit_bound)
qed

lemma handle_camera_ok:
  assumes k: "camera_ok w" and c: "consistent w" and m: "mounted w"
  shows "(\<not> cameraPending (handle ev w) \<or> \<not> modelsPending (handle ev w)) \<and>
         (camera_settled (handle ev w) \<or>
          \<not> bound (handle ev w) \<and> \<not> truthy (qrImage (st (handle ev w))))"
proof (cases ev)
  case (Frame f)
  show ?thesis
    using detectFaces_cases [of f w] k unfolding Frame
    by (auto simp: handle_def camera_ok_def camera_settled_def bound_def)
next
  case ModelsLoaded
  show ?thesis using k c unfolding ModelsLoaded
    by (auto simp: handle_def camera_ok_def camera_settled_def bound_def
        loadModels_resolved_def startCamera_def)
next
  case ModelsFailed
  show ?thesis using k unfolding ModelsFailed
    by (auto simp: handle_def camera_ok_def camera_settled_def bound_def loadModels_rejected_def)
next
  case (CameraGranted n)
  show ?thesis using k unfolding CameraGranted
    by (auto simp: handle_def camera_ok_def camera_settled_def bound_def
        startCamera_granted_def Let_def split: option.splits)
next
  case CameraDenied
  show ?thesis using k unfolding CameraDenied
    by (auto simp: handle_def camera_ok_def camera_settled_def bound_def startCamera_denied_def)
next
  case (BlobReady b)
  show ?thesis using k unfolding BlobReady
    by (auto simp: handle_def camera_ok_def camera_settled_def bound_def toBlob_callback_def
        split: option.splits)
next
  case (Responded out)
  show ?thesis using k c m unfolding Responded
    by (auto simp: handle_def camera_ok_def camera_settled_def bound_def post_settled_def
        consistent_def in_flight_ok_def Let_def split: api_outcome.splits)
next
  case ScanAgain
  show ?thesis using k unfolding ScanAgain
    by (auto simp: handle_def camera_ok_def camera_settled_def bound_def resetScan_def)
next
  case Unmount
  show ?thesis using k unfolding Unmount
    by (auto simp: handle_def camera_ok_def)
qed

lemma camera_ok_step:
  assumes k: "camera_ok w" and c: "consistent w"
  shows "camera_ok (step ev w)"
proof -
  have u: "camera_ok (unmount w)"
    using k by (auto simp: camera_ok_def camera_settled_def bound_def)
  show ?thesis
  proof (cases "mounted w")
    case True
    then show ?thesis
      using u handle_camera_ok [OF k c True, of ev]
      by (auto simp: step_def intro: commit_camera_ok)
  next
    case False
    then show ?thesis using k by (simp add: step_def)
  qed
qed

lemma camera_ok_run: "camera_ok w \<Longrightarrow> consistent w \<Longrightarrow> camera_ok (run evs w)"
  by (induction evs arbitrary: w) (simp_all add: camera_ok_step consistent_step)

lemma camera_ok_reachable: "camera_ok (run evs mount)"
proof -
  have "camera_ok mount"
    by (simp add: camera_ok_def camera_settled_def mount_def initial_def bound_def truthy_def)
  then show ?thesis by (simp add: camera_ok_run consistent_mount)
qed

section \<open>An armed loop triggers after one stability window\<close>

lemma armed_first_frame:
  assumes "armed w" "showing_face g" "now g \<noteq> 0"
  shows "step (Frame g) w = w\<lparr>eff := (eff w)\<lparr>firstDetectionTime := now g\<rparr>\<rparr>"
proof -
  from assms(1) obtain v y where v: "videoRef w = Some v" "srcObject v = Some y"
    by (auto simp: armed_def bound_def split: option.splits)
  have d: "detectFaces g w = w\<lparr>eff := (eff w)\<lparr>firstDetectionTime := now g\<rparr>\<rparr>"
    using assms v
    by (simp add: armed_def showing_face_def detectFaces_def Let_def detection_effect_def
        el_paused_def el_ended_def el_readyState_def DETECTION_STABILITY_DELAY_def)
  have h: "handle (Frame g) w = w\<lparr>eff := (eff w)\<lparr>firstDetectionTime := now g\<rparr>\<rparr>"
    using assms(1) d by (simp add: handle_def armed_def detection_effect_def)
  have s: "same_deps (snap (eff (handle (Frame g) w))) (st (handle (Frame g) w))"
    using assms(1) by (simp add: h armed_def detection_effect_def same_deps_def)
  have "commit (handle (Frame g) w) = handle (Frame g) w"
    using assms(1) v s
    by (simp add: commit_def render_def Let_def h armed_def)
  then show ?thesis using assms(1) h by (simp add: step_def armed_def)
qed

lemma armed_retrigger:
  assumes "armed w" "showing_face g" "showing_face h" "now g \<noteq> 0"
    "now h - now g > DETECTION_STABILITY_DELAY" "now h > SCAN_COOLDOWN"
  shows "scanCalls (step (Frame h) (step (Frame g) w)) = now h # scanCalls w \<and>
         capture (step (Frame h) (step (Frame g) w)) = AwaitBlob \<and>
         loading (st (step (Frame h) (step (Frame g) w)))"
proof -
  from assms(1) obtain v y where v: "videoRef w = Some v" "srcObject v = Some y"
    by (auto simp: armed_def bound_def split: option.splits)
  let ?w1 = "w\<lparr>eff := (eff w)\<lparr>firstDetectionTime := now g\<rparr>\<rparr>"
  have s1: "step (Frame g) w = ?w1"
    using assms by (simp add: armed_first_frame)
  have d: "detectFaces h ?w1 =
      ?w1\<lparr>eff := (eff ?w1)\<lparr>lastScanTime := now h, firstDetectionTime := 0\<rparr>,
        scanCalls := now h # scanCalls w,
        st := (st w)\<lparr>loading := True, status := SCANNING\<rparr>, capture := AwaitBlob\<rparr>"
    using assms v
    by (simp add: armed_def showing_face_def detectFaces_def scanFace_def Let_def
        detection_effect_def el_paused_def el_ended_def el_readyState_def)
  have m: "mounted ?w1" "animationFrame (eff ?w1)"
    using assms(1) by (simp_all add: armed_def detection_effect_def)
  have "step (Frame h) ?w1 = commit (detectFaces h ?w1)"
    using m by (simp add: step_def handle_def)
  then show ?thesis
    by (simp add: s1 d)
qed

text \<open>Ending a submission restarts the effect with both timers at zero, and leaves the
  loop armed unless the status has become the success marker.\<close>

lemma settled_armed:
  assumes c: "consistent w" and m: "mounted w" and p: "capture w \<noteq> NoCapture"
    and s: "\<not> loading (st w')" "qrImage (st w') = qrImage (st w)"
       "modelLoaded (st w') = modelLoaded (st w)" "status (st w') \<noteq> QR_GENERATED"
       "videoRef w' = videoRef w" "mounted w' = mounted w" "eff w' = eff w"
  shows "armed (commit w')"
proof -
  from c p m have l: "loading (st w)" "\<not> truthy (qrImage (st w))" "bound w" "modelLoaded (st w)"
    and d: "same_deps (snap (eff w)) (st w)"
    by (auto simp: consistent_def in_flight_ok_def)
  have q: "\<not> truthy (qrImage (st w'))" using l s by simp
  have n: "\<not> same_deps (snap (eff w')) (st w')"
    using d l s by (auto simp: same_deps_def)
  have b: "bound w'" using l s by (simp add: bound_def)
  show ?thesis
    using m l s q b n
    by (simp add: armed_def commit_bound commit_canvas commit_restart)
qed

lemma settled_timers:
  assumes c: "consistent w" and p: "capture w \<noteq> NoCapture"
    and s: "\<not> loading (st w')" "eff w' = eff w"
  shows "lastScanTime (eff (commit w')) = 0 \<and> firstDetectionTime (eff (commit w')) = 0"
proof -
  from c p have "loading (st w)" "same_deps (snap (eff w)) (st w)"
    by (auto simp: consistent_def in_flight_ok_def)
  then have "\<not> same_deps (snap (eff w')) (st w')"
    using s by (auto simp: same_deps_def)
  then show ?thesis by (simp add: commit_restart detection_effect_def)
qed

section \<open>The capture trigger\<close>

text \<open>
  C1 (the code falls short of the claim). The claim asks that two consecutive calls of
  \<^verbatim>\<open>scanFace\<close> by the loop are never less than 3000 ms apart, and the source says the
  same of \<^verbatim>\<open>SCAN_COOLDOWN\<close> (\<^verbatim>\<open>3 seconds cooldown between API calls\<close>). Evaluated on a
  face first seen at 10000, a first call at 11001, a request refused with
  \<^verbatim>\<open>Unknown face\<close>, the face seen again at 11100 and still there at 12101, the loop
  calls \<^verbatim>\<open>scanFace\<close> a second time at 12101, 1100 ms after the first, and a second
  request is posted.
\<close>

theorem cooldown_not_enforced:
  "scanCalls (run (first_trigger @
      [BlobReady (Some ''jpeg''), Responded (Refused (Some ''Unknown face'')),
       Frame (face_at 11100), Frame (face_at 12101)]) mount) = [12101, 11001] \<and>
   requests (run (first_trigger @
      [BlobReady (Some ''jpeg''), Responded (Refused (Some ''Unknown face'')),
       Frame (face_at 11100), Frame (face_at 12101), BlobReady (Some ''jpeg2'')]) mount)
     = [''jpeg'', ''jpeg2''] \<and>
   (12101::int) - 11001 < SCAN_COOLDOWN"
  by code_simp

text \<open>The stability timer is zero or the clock of a frame that showed a face.\<close>

lemma detectFaces_timer:
  "firstDetectionTime (eff (detectFaces g w)) = firstDetectionTime (eff w) \<or>
   firstDetectionTime (eff (detectFaces g w)) = 0 \<or>
   detections g > 0 \<and> firstDetectionTime (eff (detectFaces g w)) = now g"
  by (auto simp: detectFaces_def scanFace_def Let_def split: option.splits)

lemma detect_all_timer:
  assumes "firstDetectionTime (eff w) = 0 \<or> firstDetectionTime (eff w) \<in> T"
  shows "firstDetectionTime (eff (detect_all gs w)) = 0 \<or>
         firstDetectionTime (eff (detect_all gs w)) \<in> T \<union> now ` {g \<in> set gs. detections g > 0}"
  using assms
proof (induction gs arbitrary: w T)
  case Nil
  then show ?case by simp
next
  case (Cons g gs)
  let ?T = "if detections g > 0 then insert (now g) T else T"
  have "firstDetectionTime (eff (detectFaces g w)) = 0 \<or>
        firstDetectionTime (eff (detectFaces g w)) \<in> ?T"
    using Cons.prems detectFaces_timer [of g w] by auto
  from Cons.IH [OF this] show ?case
    by (cases "detections g > 0") (auto split: if_splits)
qed

text \<open>
  C5. A call of \<^verbatim>\<open>detectFaces\<close> that reaches the detector and gets no box sets the
  stability timer to zero and does not call \<^verbatim>\<open>scanFace\<close>, whatever progress the timer
  held. A face on the next frame restarts the timer at that frame's clock, without a
  call of \<^verbatim>\<open>scanFace\<close>. And after any frames \<open>gs\<close> that follow the loss, a frame \<open>h\<close> on
  which the loop calls \<^verbatim>\<open>scanFace\<close> comes more than 1000 ms after one of them that
  showed a face: nothing from before the loss counts.
\<close>

theorem lost_face_resets_timer:
  assumes "reaches_detector f w" and "detections f = 0"
  shows "let w1 = detectFaces f w
         in firstDetectionTime (eff w1) = 0 \<and> scanCalls w1 = scanCalls w \<and>
            (reaches_detector g w1 \<and> detections g > 0 \<and> now g \<noteq> 0 \<longrightarrow>
               firstDetectionTime (eff (detectFaces g w1)) = now g \<and>
               scanCalls (detectFaces g w1) = scanCalls w) \<and>
            (scanCalls (detectFaces h (detect_all gs w1)) \<noteq> scanCalls (detect_all gs w1) \<longrightarrow>
               (\<exists>g \<in> set gs. detections g > 0 \<and>
                  now h - now g > DETECTION_STABILITY_DELAY))"
proof -
  from assms(1) obtain v where v: "videoRef w = Some v"
    by (auto simp: reaches_detector_def split: option.splits)
  let ?w1 = "w\<lparr>eff := (eff w)\<lparr>firstDetectionTime := 0\<rparr>\<rparr>"
  have w1: "detectFaces f w = ?w1"
    using assms v by (simp add: reaches_detector_def detectFaces_def)
  have a: "reaches_detector g ?w1 \<and> detections g > 0 \<and> now g \<noteq> 0 \<longrightarrow>
           detectFaces g ?w1 = w\<lparr>eff := (eff w)\<lparr>firstDetectionTime := now g\<rparr>\<rparr>"
    using v
    by (simp add: reaches_detector_def detectFaces_def Let_def DETECTION_STABILITY_DELAY_def)
  have b: "scanCalls (detectFaces h (detect_all gs ?w1)) \<noteq> scanCalls (detect_all gs ?w1) \<longrightarrow>
           (\<exists>g \<in> set gs. detections g > 0 \<and> now h - now g > DETECTION_STABILITY_DELAY)"
  proof
    assume t: "scanCalls (detectFaces h (detect_all gs ?w1)) \<noteq> scanCalls (detect_all gs ?w1)"
    let ?t = "firstDetectionTime (eff (detect_all gs ?w1))"
    from trigger_needs_stability [OF t] have s: "?t \<noteq> 0"
      "now h - ?t > DETECTION_STABILITY_DELAY"
      by simp_all
    have "?t = 0 \<or> ?t \<in> {} \<union> now ` {g \<in> set gs. detections g > 0}"
      by (rule detect_all_timer) simp
    with s obtain g where "g \<in> set gs" "detections g > 0" "?t = now g" by auto
    with s show "\<exists>g \<in> set gs. detections g > 0 \<and> now h - now g > DETECTION_STABILITY_DELAY"
      by auto
  qed
  show ?thesis
    using a b by (auto simp: w1 Let_def)
qed

theorem lost_face_resets_timer_witness:
  "firstDetectionTime (eff partial_progress) = 10000 \<and>
   reaches_detector (empty_at 10500) partial_progress \<and> detections (empty_at 10500) = 0 \<and>
   firstDetectionTime (eff (detectFaces (empty_at 10500) partial_progress)) = 0 \<and>
   reaches_detector (face_at 10600) (detectFaces (empty_at 10500) partial_progress) \<and>
   firstDetectionTime
     (eff (detectFaces (face_at 10600) (detectFaces (empty_at 10500) partial_progress))) = 10600 \<and>
   scanCalls (detect_all [face_at 10600, face_at 11001]
     (detectFaces (empty_at 10500) partial_progress)) = [] \<and>
   scanCalls (detectFaces (face_at 11700) (detect_all [face_at 10600, face_at 11001]
     (detectFaces (empty_at 10500) partial_progress))) \<noteq>
   scanCalls (detect_all [face_at 10600, face_at 11001]
     (detectFaces (empty_at 10500) partial_progress)) \<and>
   (\<exists>g \<in> set [face_at 10600, face_at 11001].
      detections g > 0 \<and> now (face_at 11700) - now g > DETECTION_STABILITY_DELAY)"
proof -
  have a: "reaches_detector (empty_at 10500) partial_progress" "detections (empty_at 10500) = 0"
    by code_simp+
  have b: "firstDetectionTime (eff partial_progress) = 10000"
    "reaches_detector (face_at 10600) (detectFaces (empty_at 10500) partial_progress)"
    "detections (face_at 10600) > 0" "now (face_at 10600) \<noteq> 0" "now (face_at 10600) = 10600"
    by code_simp+
  have c: "scanCalls (detect_all [face_at 10600, face_at 11001]
     (detectFaces (empty_at 10500) partial_progress)) = []"
    "scanCalls (detectFaces (face_at 11700) (detect_all [face_at 10600, face_at 11001]
     (detectFaces (empty_at 10500) partial_progress))) \<noteq>
   scanCalls (detect_all [face_at 10600, face_at 11001]
     (detectFaces (empty_at 10500) partial_progress))"
    by code_simp+
  show ?thesis
    using a b c
      lost_face_resets_timer [OF a, of "face_at 10600" "face_at 11700"
        "[face_at 10600, face_at 11001]"]
    unfolding Let_def by simp
qed

text \<open>
  C9. In a reachable state, any change of \<^verbatim>\<open>loading\<close>, \<^verbatim>\<open>status\<close> or \<^verbatim>\<open>qrImage\<close> makes
  the next commit restart the detection effect, with \<open>lastScanTime\<close> and
  \<open>firstDetectionTime\<close> at zero. So when a submission ends (a null blob, or the
  request settles), both timers are zero; and unless the status is then the success
  marker, a face seen on a frame \<open>g\<close> and still there on a frame \<open>h\<close> more than 1000 ms
  later makes the loop call \<^verbatim>\<open>scanFace\<close> at \<open>h\<close>, however recent the previous call was.
  The clock is \<^verbatim>\<open>Date.now()\<close>, epoch milliseconds: the statement asks that it is not 0
  at \<open>g\<close> (0 is the timer's value for no face) and above 3000 at \<open>h\<close>, which is all
  that is left of the cooldown test against a zero record.
\<close>

theorem restart_erases_cooldown:
  assumes "w = run evs mount" and "mounted w"
    and "capture w = AwaitBlob \<and> ev = BlobReady None \<or>
         capture w = AwaitResponse \<and> ev = Responded out"
  shows "(loading c \<noteq> loading (st w) \<or> status c \<noteq> status (st w) \<or>
          qrImage c \<noteq> qrImage (st w) \<longrightarrow>
            eff (commit (w\<lparr>st := c\<rparr>)) = detection_effect c \<and>
            lastScanTime (detection_effect c) = 0 \<and>
            firstDetectionTime (detection_effect c) = 0) \<and>
         (let w1 = step ev w
          in lastScanTime (eff w1) = 0 \<and> firstDetectionTime (eff w1) = 0 \<and>
             (status (st w1) \<noteq> QR_GENERATED \<and> showing_face g \<and> showing_face h \<and>
              now g \<noteq> 0 \<and> now h - now g > DETECTION_STABILITY_DELAY \<and>
              now h > SCAN_COOLDOWN \<longrightarrow>
                scanCalls (step (Frame h) (step (Frame g) w1)) = now h # scanCalls w1))"
proof -
  have c: "consistent w" using assms(1) by (simp add: consistent_reachable)
  then have d: "same_deps (snap (eff w)) (st w)" by (simp add: consistent_def)
  have first: "loading c \<noteq> loading (st w) \<or> status c \<noteq> status (st w) \<or>
          qrImage c \<noteq> qrImage (st w) \<longrightarrow>
            eff (commit (w\<lparr>st := c\<rparr>)) = detection_effect c \<and>
            lastScanTime (detection_effect c) = 0 \<and>
            firstDetectionTime (detection_effect c) = 0"
  proof
    assume "loading c \<noteq> loading (st w) \<or> status c \<noteq> status (st w) \<or>
          qrImage c \<noteq> qrImage (st w)"
    with d have "\<not> same_deps (snap (eff (w\<lparr>st := c\<rparr>))) (st (w\<lparr>st := c\<rparr>))"
      by (auto simp: same_deps_def)
    then have "eff (commit (w\<lparr>st := c\<rparr>)) = detection_effect (st (w\<lparr>st := c\<rparr>))"
      by (rule commit_restart)
    then show "eff (commit (w\<lparr>st := c\<rparr>)) = detection_effect c \<and>
            lastScanTime (detection_effect c) = 0 \<and>
            firstDetectionTime (detection_effect c) = 0"
      by (simp add: detection_effect_def)
  qed
  let ?w' = "handle ev w"
  let ?w1 = "step ev w"
  have p: "capture w \<noteq> NoCapture" using assms(3) by auto
  have s: "?w1 = commit ?w'"
    using assms(2,3) by (auto simp: step_def)
  have f: "\<not> loading (st ?w')" "eff ?w' = eff w" "videoRef ?w' = videoRef w"
    "mounted ?w' = mounted w" "modelLoaded (st ?w') = modelLoaded (st w)"
    using assms(3)
    by (auto simp: handle_def toBlob_callback_def post_settled_def Let_def
        split: api_outcome.splits)
  have q: "status (st ?w') \<noteq> QR_GENERATED \<Longrightarrow> qrImage (st ?w') = qrImage (st w)"
    using assms(3)
    by (auto simp: handle_def toBlob_callback_def post_settled_def Let_def
        split: api_outcome.splits)
  have t: "lastScanTime (eff ?w1) = 0 \<and> firstDetectionTime (eff ?w1) = 0"
    unfolding s using c p f(1,2) by (rule settled_timers)
  have a: "status (st ?w') \<noteq> QR_GENERATED \<Longrightarrow> armed ?w1"
    unfolding s using c assms(2) p f q by (intro settled_armed [of w]) simp_all
  have r: "status (st ?w1) \<noteq> QR_GENERATED \<and> showing_face g \<and> showing_face h \<and>
              now g \<noteq> 0 \<and> now h - now g > DETECTION_STABILITY_DELAY \<and>
              now h > SCAN_COOLDOWN \<longrightarrow>
                scanCalls (step (Frame h) (step (Frame g) ?w1)) = now h # scanCalls ?w1"
    using armed_retrigger [OF a, of g h] by (simp add: s)
  show ?thesis
    using first t r unfolding Let_def by blast
qed

theorem restart_erases_cooldown_witness:
  "mounted awaiting_response \<and> capture awaiting_response = AwaitResponse \<and>
   scanCalls awaiting_response = [11001] \<and>
   loading (initial\<lparr>loading := False\<rparr>) \<noteq> loading (st awaiting_response) \<and>
   eff (commit (awaiting_response\<lparr>st := initial\<lparr>loading := False\<rparr>\<rparr>)) =
     detection_effect (initial\<lparr>loading := False\<rparr>) \<and>
   lastScanTime (eff (step (Responded (Failed None)) awaiting_response)) = 0 \<and>
   firstDetectionTime (eff (step (Responded (Failed None)) awaiting_response)) = 0 \<and>
   status (st (step (Responded (Failed None)) awaiting_response)) \<noteq> QR_GENERATED \<and>
   showing_face (face_at 11100) \<and> showing_face (face_at 12101) \<and>
   scanCalls (step (Frame (face_at 12101)) (step (Frame (face_at 11100))
      (step (Responded (Failed None)) awaiting_response))) = [12101, 11001]"
proof -
  have a: "mounted awaiting_response"
    "capture awaiting_response = AwaitBlob \<and> Responded (Failed None) = BlobReady None \<or>
     capture awaiting_response = AwaitResponse \<and> Responded (Failed None) = Responded (Failed None)"
    by code_simp+
  have a': "capture awaiting_response = AwaitResponse" "scanCalls awaiting_response = [11001]"
    "loading (initial\<lparr>loading := False\<rparr>) \<noteq> loading (st awaiting_response)"
    by code_simp+
  have b: "status (st (step (Responded (Failed None)) awaiting_response)) \<noteq> QR_GENERATED"
    by code_simp
  have d: "showing_face (face_at 11100)" "showing_face (face_at 12101)"
    "now (face_at 11100) \<noteq> 0"
    "now (face_at 12101) - now (face_at 11100) > DETECTION_STABILITY_DELAY"
    "now (face_at 12101) > SCAN_COOLDOWN" "now (face_at 12101) = 12101"
    by code_simp+
  have e: "scanCalls (step (Responded (Failed None)) awaiting_response) = [11001]"
    by code_simp
  have r: "awaiting_response = run (first_trigger @ [BlobReady (Some ''jpeg'')]) mount"
    by (simp add: awaiting_response_def)
  show ?thesis
    using a(1) a' b d e
      restart_erases_cooldown [OF r a, of "initial\<lparr>loading := False\<rparr>" "face_at 11100"
        "face_at 12101"]
    unfolding Let_def by simp
qed

section \<open>Capture and submit\<close>

text \<open>
  C2. Every call of \<^verbatim>\<open>scanFace\<close> that passes the re-entrancy guard sets the loading flag
  and reaches \<^verbatim>\<open>toBlob\<close>, and the flag is false again once the submission has ended,
  whichever way it ends: a null blob, or a posted request that settles with a success
  response, a \<^verbatim>\<open>success: false\<close> response or an error. For the enhanced variant this is
  stated on the transition system, for any state and any frame on which the loop calls
  \<^verbatim>\<open>scanFace\<close>. For the basic variant it is stated on the function, called while the
  video and the canvas are rendered (as they are whenever no result is displayed).
\<close>

theorem loading_released:
  "(scanCalls (step (Frame f) w) \<noteq> scanCalls w \<longrightarrow>
      (let w1 = step (Frame f) w
       in loading (st w1) \<and> capture w1 = AwaitBlob \<and>
          \<not> loading (st (step (BlobReady None) w1)) \<and>
          capture (step (BlobReady (Some b)) w1) = AwaitResponse \<and>
          \<not> loading (st (step (Responded out) (step (BlobReady (Some b)) w1))))) \<and>
   (\<not> loading r \<and> \<not> truthy (qrImage r) \<and> videoRef w \<noteq> None \<and> canvasRef w \<longrightarrow>
      (let w1 = scanFace_basic r w
       in loading (st w1) \<and> capture w1 = AwaitBlob \<and>
          \<not> loading (st (toBlob_callback None w1)) \<and>
          capture (toBlob_callback (Some b) w1) = AwaitResponse \<and>
          \<not> loading (st (post_settled out (toBlob_callback (Some b) w1)))))"
proof (intro conjI impI)
  assume t: "scanCalls (step (Frame f) w) \<noteq> scanCalls w"
  let ?w1 = "step (Frame f) w"
  from step_trigger [OF t] have w1: "mounted ?w1" "capture ?w1 = AwaitBlob" "loading (st ?w1)"
    by simp_all
  have n: "\<not> loading (st (step (BlobReady None) ?w1))"
    using w1 by (simp add: step_def handle_def toBlob_callback_def)
  let ?w2 = "step (BlobReady (Some b)) ?w1"
  have w2: "mounted ?w2" "capture ?w2 = AwaitResponse"
    using w1 by (simp_all add: step_def handle_def toBlob_callback_def)
  have "\<not> loading (st (step (Responded out) ?w2))"
    using w2 by (simp add: step_def handle_def post_settled_def Let_def)
  with n w1 w2 show "let w1 = step (Frame f) w
       in loading (st w1) \<and> capture w1 = AwaitBlob \<and>
          \<not> loading (st (step (BlobReady None) w1)) \<and>
          capture (step (BlobReady (Some b)) w1) = AwaitResponse \<and>
          \<not> loading (st (step (Responded out) (step (BlobReady (Some b)) w1)))"
    by (simp add: Let_def)
next
  assume "\<not> loading r \<and> \<not> truthy (qrImage r) \<and> videoRef w \<noteq> None \<and> canvasRef w"
  then show "let w1 = scanFace_basic r w
       in loading (st w1) \<and> capture w1 = AwaitBlob \<and>
          \<not> loading (st (toBlob_callback None w1)) \<and>
          capture (toBlob_callback (Some b) w1) = AwaitResponse \<and>
          \<not> loading (st (post_settled out (toBlob_callback (Some b) w1)))"
    by (auto simp: scanFace_basic_def toBlob_callback_def post_settled_def Let_def)
qed

theorem loading_released_witness:
  "scanCalls (step (Frame (face_at 11001)) partial_progress) \<noteq> scanCalls partial_progress \<and>
   loading (st (step (Frame (face_at 11001)) partial_progress)) \<and>
   \<not> loading (st (step (BlobReady None) (step (Frame (face_at 11001)) partial_progress))) \<and>
   \<not> loading (st (step (Responded (Failed None))
       (step (BlobReady (Some ''jpeg'')) (step (Frame (face_at 11001)) partial_progress)))) \<and>
   \<not> loading initial \<and> \<not> truthy (qrImage initial) \<and> videoRef mount \<noteq> None \<and>
   canvasRef mount \<and> loading (st (scanFace_basic initial mount)) \<and>
   \<not> loading (st (toBlob_callback None (scanFace_basic initial mount))) \<and>
   \<not> loading (st (post_settled (Failed None)
       (toBlob_callback (Some ''jpeg'') (scanFace_basic initial mount))))"
proof -
  have t: "scanCalls (step (Frame (face_at 11001)) partial_progress) \<noteq>
           scanCalls partial_progress"
    by code_simp
  have g: "\<not> loading initial \<and> \<not> truthy (qrImage initial) \<and> videoRef mount \<noteq> None \<and>
           canvasRef mount"
    by code_simp
  show ?thesis
    using t g
      loading_released [where f = "face_at 11001" and w = partial_progress
        and out = "Failed None" and b = "''jpeg''" and r = initial]
      loading_released [where f = "face_at 11001" and w = mount and out = "Failed None"
        and b = "''jpeg''" and r = initial]
    by (simp add: Let_def)
qed

text \<open>Enhanced variant: while a submission is in flight or a result is displayed, a
  frame changes nothing but the effect's own record.\<close>

lemma in_flight_blocks:
  assumes c: "consistent w" and b: "loading (st w) \<or> truthy (qrImage (st w))"
  shows "scanCalls (step (Frame f) w) = scanCalls w \<and> requests (step (Frame f) w) = requests w \<and>
         capture (step (Frame f) w) = capture w \<and> st (step (Frame f) w) = st w"
proof -
  from c have d: "loading (snap (eff w)) = loading (st w)"
    "qrImage (snap (eff w)) = qrImage (st w)"
    by (simp_all add: consistent_def same_deps_def)
  have "detectFaces f w = w \<or> (\<exists>e. detectFaces f w = w\<lparr>eff := e\<rparr>)"
    using detectFaces_cases [of f w] b d by auto
  then have "scanCalls (handle (Frame f) w) = scanCalls w \<and>
             requests (handle (Frame f) w) = requests w \<and>
             capture (handle (Frame f) w) = capture w \<and> st (handle (Frame f) w) = st w"
    by (auto simp: handle_def)
  then show ?thesis by (simp add: step_def)
qed

text \<open>Every call of \<^verbatim>\<open>scanFace\<close> by the loop starts one capture, and every request
  comes from one: the requests posted, plus the capture whose blob is outstanding, never
  exceed the calls, and equal them as long as no blob was null.\<close>

lemma handle_tally:
  assumes c: "consistent w"
  shows "(length (requests w) + outstanding w \<le> length (scanCalls w) \<longrightarrow>
            length (requests (handle ev w)) + outstanding (handle ev w)
              \<le> length (scanCalls (handle ev w))) \<and>
         (ev \<noteq> BlobReady None \<and> length (scanCalls w) = length (requests w) + outstanding w \<longrightarrow>
            length (scanCalls (handle ev w)) =
              length (requests (handle ev w)) + outstanding (handle ev w))"
proof (cases ev)
  case (Frame f)
  from c have n: "\<not> loading (snap (eff w)) \<Longrightarrow> capture w = NoCapture"
    by (auto simp: consistent_def in_flight_ok_def same_deps_def)
  show ?thesis
    using detectFaces_cases [of f w] n unfolding Frame
    by (auto simp: handle_def outstanding_def)
next
  case (BlobReady b)
  show ?thesis unfolding BlobReady
    by (auto simp: handle_def outstanding_def toBlob_callback_def split: option.splits)
next
  case (Responded out)
  show ?thesis unfolding Responded
    by (auto simp: handle_def outstanding_def post_settled_def Let_def)
next
  case (CameraGranted n)
  show ?thesis unfolding CameraGranted
    by (auto simp: handle_def outstanding_def startCamera_granted_def Let_def
        split: option.splits)
qed (auto simp: handle_def outstanding_def loadModels_resolved_def loadModels_rejected_def
    startCamera_def startCamera_denied_def resetScan_def)

lemma run_tally_le:
  "consistent w \<Longrightarrow> length (requests w) + outstanding w \<le> length (scanCalls w) \<Longrightarrow>
   length (requests (run evs w)) + outstanding (run evs w) \<le> length (scanCalls (run evs w))"
proof (induction evs arbitrary: w)
  case Nil
  then show ?case by simp
next
  case (Cons ev evs)
  have "length (requests (step ev w)) + outstanding (step ev w) \<le> length (scanCalls (step ev w))"
    using Cons.prems handle_tally [OF Cons.prems(1), of ev] by (simp add: step_def)
  with Cons.IH [of "step ev w"] Cons.prems(1) show ?case
    by (simp add: consistent_step)
qed

lemma run_tally_eq:
  "consistent w \<Longrightarrow> length (scanCalls w) = length (requests w) + outstanding w \<Longrightarrow>
   BlobReady None \<notin> set evs \<Longrightarrow>
   length (scanCalls (run evs w)) = length (requests (run evs w)) + outstanding (run evs w)"
proof (induction evs arbitrary: w)
  case Nil
  then show ?case by simp
next
  case (Cons ev evs)
  from Cons.prems(3) have ne: "ev \<noteq> BlobReady None" by auto
  have "length (scanCalls (step ev w)) = length (requests (step ev w)) + outstanding (step ev w)"
    using Cons.prems(2) ne handle_tally [OF Cons.prems(1), of ev] by (simp add: step_def)
  with Cons.IH [of "step ev w"] Cons.prems show ?case
    by (simp add: consistent_step)
qed

text \<open>The same for the basic variant: its invariant, what a tick does, and the
  count.\<close>

lemma basic_ok_mount: "basic_ok mount_basic"
  by (simp add: basic_ok_def mount_basic_def)

lemma tick_cases:
  assumes "basic_ok w" and "mounted w"
  shows "tick t w = w \<and> (loading (st w) \<or> truthy (qrImage (st w)) \<or> status (st w) = QR_GENERATED) \<or>
         capture w = NoCapture \<and>
         tick t w = w\<lparr>scanCalls := t # scanCalls w,
                      st := (st w)\<lparr>loading := True, status := SCANNING\<rparr>,
                      capture := AwaitBlob\<rparr>"
  using assms
  by (auto simp: tick_def interval_armed_def scanFace_basic_def basic_ok_def Let_def)

lemma handle_basic_ok:
  assumes k: "basic_ok w" and m: "mounted w"
  shows "capture (handle_basic ev w) = NoCapture \<or> loading (st (handle_basic ev w))"
proof (cases ev)
  case (Tick t)
  show ?thesis using tick_cases [OF k m, of t] k unfolding Tick
    by (auto simp: handle_basic_def basic_ok_def)
next
  case (StreamGranted n)
  show ?thesis using k unfolding StreamGranted
    by (auto simp: handle_basic_def basic_ok_def startCamera_basic_granted_def Let_def
        split: option.splits)
next
  case (BlobDone b)
  show ?thesis using k unfolding BlobDone
    by (auto simp: handle_basic_def basic_ok_def toBlob_callback_def split: option.splits)
next
  case (Settled out)
  show ?thesis using k unfolding Settled
    by (auto simp: handle_basic_def basic_ok_def post_settled_def Let_def)
qed (use k in \<open>auto simp: handle_basic_def basic_ok_def startCamera_denied_def resetScan_def\<close>)

lemma basic_ok_step: "basic_ok w \<Longrightarrow> basic_ok (step_basic ev w)"
proof (cases "mounted w \<and> ev \<noteq> Teardown")
  case False
  assume "basic_ok w"
  then show ?thesis using False by (auto simp: step_basic_def basic_ok_def)
next
  case True
  assume k: "basic_ok w"
  show ?thesis
    using True handle_basic_ok [OF k, of ev] render_refs [of "handle_basic ev w"]
    by (auto simp: step_basic_def basic_ok_def)
qed

lemma basic_ok_run: "basic_ok w \<Longrightarrow> basic_ok (run_basic evs w)"
  by (induction evs arbitrary: w) (simp_all add: basic_ok_step)

lemma handle_basic_tally:
  assumes k: "basic_ok w" and m: "mounted w"
  shows "(length (requests w) + outstanding w \<le> length (scanCalls w) \<longrightarrow>
            length (requests (handle_basic ev w)) + outstanding (handle_basic ev w)
              \<le> length (scanCalls (handle_basic ev w))) \<and>
         (ev \<noteq> BlobDone None \<and> length (scanCalls w) = length (requests w) + outstanding w \<longrightarrow>
            length (scanCalls (handle_basic ev w)) =
              length (requests (handle_basic ev w)) + outstanding (handle_basic ev w))"
proof (cases ev)
  case (Tick t)
  show ?thesis using tick_cases [OF k m, of t] unfolding Tick
    by (auto simp: handle_basic_def outstanding_def)
next
  case (StreamGranted n)
  show ?thesis unfolding StreamGranted
    by (auto simp: handle_basic_def outstanding_def startCamera_basic_granted_def Let_def
        split: option.splits)
next
  case (BlobDone b)
  show ?thesis unfolding BlobDone
    by (auto simp: handle_basic_def outstanding_def toBlob_callback_def split: option.splits)
next
  case (Settled out)
  show ?thesis unfolding Settled
    by (auto simp: handle_basic_def outstanding_def post_settled_def Let_def)
qed (auto simp: handle_basic_def outstanding_def startCamera_denied_def resetScan_def)

lemma step_basic_tally:
  assumes k: "basic_ok w"
  shows "(length (requests w) + outstanding w \<le> length (scanCalls w) \<longrightarrow>
            length (requests (step_basic ev w)) + outstanding (step_basic ev w)
              \<le> length (scanCalls (step_basic ev w))) \<and>
         (ev \<noteq> BlobDone None \<and> length (scanCalls w) = length (requests w) + outstanding w \<longrightarrow>
            length (scanCalls (step_basic ev w)) =
              length (requests (step_basic ev w)) + outstanding (step_basic ev w))"
proof (cases "mounted w \<and> ev \<noteq> Teardown")
  case False
  then show ?thesis by (auto simp: step_basic_def)
next
  case True
  then show ?thesis
    using handle_basic_tally [OF k, of ev] by (simp add: step_basic_def)
qed

lemma run_basic_tally_le:
  "basic_ok w \<Longrightarrow> length (requests w) + outstanding w \<le> length (scanCalls w) \<Longrightarrow>
   length (requests (run_basic evs w)) + outstanding (run_basic evs w)
     \<le> length (scanCalls (run_basic evs w))"
proof (induction evs arbitrary: w)
  case Nil
  then show ?case by simp
next
  case (Cons ev evs)
  have "length (requests (step_basic ev w)) + outstanding (step_basic ev w)
          \<le> length (scanCalls (step_basic ev w))"
    using Cons.prems step_basic_tally [OF Cons.prems(1), of ev] by simp
  with Cons.IH [of "step_basic ev w"] Cons.prems(1) show ?case
    by (simp add: basic_ok_step)
qed

lemma run_basic_tally_eq:
  "basic_ok w \<Longrightarrow> length (scanCalls w) = length (requests w) + outstanding w \<Longrightarrow>
   BlobDone None \<notin> set evs \<Longrightarrow>
   length (scanCalls (run_basic evs w)) =
     length (requests (run_basic evs w)) + outstanding (run_basic evs w)"
proof (induction evs arbitrary: w)
  case Nil
  then show ?case by simp
next
  case (Cons ev evs)
  from Cons.prems(3) have ne: "ev \<noteq> BlobDone None" by auto
  have "length (scanCalls (step_basic ev w)) =
          length (requests (step_basic ev w)) + outstanding (step_basic ev w)"
    using Cons.prems(2) ne step_basic_tally [OF Cons.prems(1), of ev] by simp
  with Cons.IH [of "step_basic ev w"] Cons.prems show ?case
    by (simp add: basic_ok_step)
qed

lemma tick_blocked:
  assumes "loading (st w) \<or> truthy (qrImage (st w))"
  shows "scanCalls (step_basic (Tick t) w) = scanCalls w \<and>
         requests (step_basic (Tick t) w) = requests w \<and>
         capture (step_basic (Tick t) w) = capture w \<and> st (step_basic (Tick t) w) = st w"
  using assms by (auto simp: step_basic_def handle_basic_def tick_def interval_armed_def)

text \<open>
  C4. A call of \<^verbatim>\<open>scanFace\<close> from a render in which \<^verbatim>\<open>loading\<close> is true or \<^verbatim>\<open>qrImage\<close> is
  truthy (the result card is displayed) returns the world as it was: no state cell, no
  outstanding capture, no request changes. A call that passes the guard, with the video
  and the canvas rendered, sets the loading flag and the status and starts one capture;
  a second call from the render that follows changes nothing, and the one blob is the one
  request. In every state either variant reaches with a submission in flight or a result
  displayed, such a call is a no-op and a frame (a tick of the interval) changes neither
  the calls made, the requests posted, the outstanding capture nor the state. And in every
  reachable state the requests posted plus the capture still waiting for its blob never
  exceed the calls of \<^verbatim>\<open>scanFace\<close> that passed the guard, and equal them when no blob was
  null: one submission per trigger.
\<close>

theorem scanFace_reentrancy_guard:
  "(loading r \<or> truthy (qrImage r) \<longrightarrow> scanFace r w = w \<and> scanFace_basic r w = w) \<and>
   (\<not> loading r \<and> \<not> truthy (qrImage r) \<and> videoRef w \<noteq> None \<and> canvasRef w \<longrightarrow>
      (let w1 = scanFace r w
       in loading (st w1) \<and> status (st w1) = SCANNING \<and> capture w1 = AwaitBlob \<and>
          requests w1 = requests w \<and> scanFace (st w1) w1 = w1 \<and>
          requests (toBlob_callback (Some b) (scanFace (st w1) w1)) = requests w @ [b]) \<and>
      (let w1 = scanFace_basic r w
       in loading (st w1) \<and> status (st w1) = SCANNING \<and> capture w1 = AwaitBlob \<and>
          requests w1 = requests w \<and> scanFace_basic (st w1) w1 = w1 \<and>
          requests (toBlob_callback (Some b) (scanFace_basic (st w1) w1)) = requests w @ [b])) \<and>
   (let e = run evs mount
    in (loading (st e) \<or> truthy (qrImage (st e)) \<longrightarrow>
          scanFace (st e) e = e \<and>
          scanCalls (step (Frame f) e) = scanCalls e \<and>
          requests (step (Frame f) e) = requests e \<and>
          capture (step (Frame f) e) = capture e \<and> st (step (Frame f) e) = st e) \<and>
       length (requests e) + outstanding e \<le> length (scanCalls e) \<and>
       (BlobReady None \<notin> set evs \<longrightarrow>
          length (scanCalls e) = length (requests e) + outstanding e)) \<and>
   (let e = run_basic bevs mount_basic
    in (loading (st e) \<or> truthy (qrImage (st e)) \<longrightarrow>
          scanFace_basic (st e) e = e \<and>
          scanCalls (step_basic (Tick t) e) = scanCalls e \<and>
          requests (step_basic (Tick t) e) = requests e \<and>
          capture (step_basic (Tick t) e) = capture e \<and> st (step_basic (Tick t) e) = st e) \<and>
       length (requests e) + outstanding e \<le> length (scanCalls e) \<and>
       (BlobDone None \<notin> set bevs \<longrightarrow>
          length (scanCalls e) = length (requests e) + outstanding e))"
proof -
  have guard: "loading r \<or> truthy (qrImage r) \<longrightarrow> scanFace r w = w \<and> scanFace_basic r w = w"
    by (simp add: scanFace_def scanFace_basic_def)
  have genuine: "\<not> loading r \<and> \<not> truthy (qrImage r) \<and> videoRef w \<noteq> None \<and> canvasRef w \<longrightarrow>
      (let w1 = scanFace r w
       in loading (st w1) \<and> status (st w1) = SCANNING \<and> capture w1 = AwaitBlob \<and>
          requests w1 = requests w \<and> scanFace (st w1) w1 = w1 \<and>
          requests (toBlob_callback (Some b) (scanFace (st w1) w1)) = requests w @ [b]) \<and>
      (let w1 = scanFace_basic r w
       in loading (st w1) \<and> status (st w1) = SCANNING \<and> capture w1 = AwaitBlob \<and>
          requests w1 = requests w \<and> scanFace_basic (st w1) w1 = w1 \<and>
          requests (toBlob_callback (Some b) (scanFace_basic (st w1) w1)) = requests w @ [b])"
    by (auto simp: scanFace_def scanFace_basic_def toBlob_callback_def Let_def)
  let ?e = "run evs mount"
  have c: "consistent ?e" by (rule consistent_reachable)
  have m0: "consistent mount"
    "length (scanCalls mount) = length (requests mount) + outstanding mount"
    by (rule consistent_mount) (simp add: mount_def outstanding_def)
  have e1: "loading (st ?e) \<or> truthy (qrImage (st ?e)) \<longrightarrow>
          scanFace (st ?e) ?e = ?e \<and>
          scanCalls (step (Frame f) ?e) = scanCalls ?e \<and>
          requests (step (Frame f) ?e) = requests ?e \<and>
          capture (step (Frame f) ?e) = capture ?e \<and> st (step (Frame f) ?e) = st ?e"
    using in_flight_blocks [OF c, of f] by (simp add: scanFace_def)
  have e2: "length (requests ?e) + outstanding ?e \<le> length (scanCalls ?e)"
    using m0 by (intro run_tally_le) simp_all
  have e3: "BlobReady None \<notin> set evs \<longrightarrow>
          length (scanCalls ?e) = length (requests ?e) + outstanding ?e"
    using m0 by (auto intro: run_tally_eq)
  let ?b = "run_basic bevs mount_basic"
  have b0: "basic_ok mount_basic"
    "length (scanCalls mount_basic) = length (requests mount_basic) + outstanding mount_basic"
    by (rule basic_ok_mount) (simp add: mount_basic_def outstanding_def)
  have b1: "loading (st ?b) \<or> truthy (qrImage (st ?b)) \<longrightarrow>
          scanFace_basic (st ?b) ?b = ?b \<and>
          scanCalls (step_basic (Tick t) ?b) = scanCalls ?b \<and>
          requests (step_basic (Tick t) ?b) = requests ?b \<and>
          capture (step_basic (Tick t) ?b) = capture ?b \<and> st (step_basic (Tick t) ?b) = st ?b"
    using tick_blocked [of ?b t] by (simp add: scanFace_basic_def)
  have b2: "length (requests ?b) + outstanding ?b \<le> length (scanCalls ?b)"
    using b0 by (intro run_basic_tally_le) simp_all
  have b3: "BlobDone None \<notin> set bevs \<longrightarrow>
          length (scanCalls ?b) = length (requests ?b) + outstanding ?b"
    using b0 by (auto intro: run_basic_tally_eq)
  show ?thesis
    unfolding Let_def using guard genuine [unfolded Let_def] e1 e2 e3 b1 b2 b3 by blast
qed

theorem scanFace_reentrancy_guard_witness:
  "(loading (initial\<lparr>loading := True\<rparr>) \<or> truthy (qrImage (initial\<lparr>loading := True\<rparr>))) \<and>
   scanFace (initial\<lparr>loading := True\<rparr>) (mount\<lparr>st := initial\<lparr>loading := True\<rparr>\<rparr>) =
     mount\<lparr>st := initial\<lparr>loading := True\<rparr>\<rparr> \<and>
   scanFace_basic (initial\<lparr>loading := True\<rparr>) (mount\<lparr>st := initial\<lparr>loading := True\<rparr>\<rparr>) =
     mount\<lparr>st := initial\<lparr>loading := True\<rparr>\<rparr> \<and>
   \<not> loading initial \<and> \<not> truthy (qrImage initial) \<and> videoRef mount \<noteq> None \<and> canvasRef mount \<and>
   capture (scanFace initial mount) = AwaitBlob \<and>
   capture (scanFace_basic initial mount) = AwaitBlob \<and>
   scanFace (st (scanFace initial mount)) (scanFace initial mount) = scanFace initial mount \<and>
   loading (st awaiting_response) \<and>
   scanFace (st awaiting_response) awaiting_response = awaiting_response \<and>
   scanCalls (step (Frame (face_at 12500)) awaiting_response) = scanCalls awaiting_response \<and>
   requests (step (Frame (face_at 12500)) awaiting_response) = [''jpeg''] \<and>
   BlobReady None \<notin> set (first_trigger @ [BlobReady (Some ''jpeg'')]) \<and>
   length (scanCalls awaiting_response) =
     length (requests awaiting_response) + outstanding awaiting_response \<and>
   loading (st basic_in_flight) \<and>
   scanFace_basic (st basic_in_flight) basic_in_flight = basic_in_flight \<and>
   scanCalls (step_basic (Tick 6000) basic_in_flight) = [3000] \<and>
   requests (step_basic (Tick 6000) basic_in_flight) = [''jpeg''] \<and>
   BlobDone None \<notin> set [StreamGranted 1, Tick 3000, BlobDone (Some ''jpeg'')] \<and>
   length (scanCalls basic_in_flight) =
     length (requests basic_in_flight) + outstanding basic_in_flight"
proof -
  have a: "loading (initial\<lparr>loading := True\<rparr>) \<or> truthy (qrImage (initial\<lparr>loading := True\<rparr>))"
    by simp
  have g: "\<not> loading initial \<and> \<not> truthy (qrImage initial) \<and> videoRef mount \<noteq> None \<and>
           canvasRef mount"
    by code_simp
  have l: "loading (st awaiting_response)" "requests awaiting_response = [''jpeg'']"
    "BlobReady None \<notin> set (first_trigger @ [BlobReady (Some ''jpeg'')])"
    by code_simp+
  have k: "loading (st basic_in_flight)" "requests basic_in_flight = [''jpeg'']"
    "scanCalls basic_in_flight = [3000]"
    "BlobDone None \<notin> set [StreamGranted 1, Tick 3000, BlobDone (Some ''jpeg'')]"
    by code_simp+
  note t1 = scanFace_reentrancy_guard [where r = "initial\<lparr>loading := True\<rparr>"
      and w = "mount\<lparr>st := initial\<lparr>loading := True\<rparr>\<rparr>", THEN conjunct1]
  note t2 = scanFace_reentrancy_guard [where r = initial and w = mount and b = "''jpeg''"
      and evs = "first_trigger @ [BlobReady (Some ''jpeg'')]" and f = "face_at 12500"
      and bevs = "[StreamGranted 1, Tick 3000, BlobDone (Some ''jpeg'')]" and t = 6000,
      unfolded Let_def, folded awaiting_response_def basic_in_flight_def]
  show ?thesis
    using a g l k t1 t2 by auto
qed

text \<open>
  C10. When \<^verbatim>\<open>toBlob\<close> hands its callback a null blob after a call of \<^verbatim>\<open>scanFace\<close> that
  passed the guard, the loading flag is cleared, no request is posted, the status stays
  \<^verbatim>\<open>Scanning face...\<close>, and the QR image and the user record are what they were.
\<close>

theorem null_blob_leaves_scanning:
  assumes "\<not> loading r" and "\<not> truthy (qrImage r)"
  shows "(let w1 = toBlob_callback None (scanFace r w)
          in \<not> loading (st w1) \<and> status (st w1) = SCANNING \<and> requests w1 = requests w \<and>
             capture w1 = NoCapture \<and>
             qrImage (st w1) = qrImage (st w) \<and> user (st w1) = user (st w)) \<and>
         (let w1 = toBlob_callback None (scanFace_basic r w)
          in \<not> loading (st w1) \<and> status (st w1) = SCANNING \<and> requests w1 = requests w \<and>
             capture w1 = NoCapture \<and>
             qrImage (st w1) = qrImage (st w) \<and> user (st w1) = user (st w))"
  using assms
  by (simp add: scanFace_def scanFace_basic_def toBlob_callback_def Let_def split: option.splits)

theorem null_blob_leaves_scanning_witness:
  "\<not> loading initial \<and> \<not> truthy (qrImage initial) \<and>
   (let w1 = toBlob_callback None (scanFace initial mount)
    in \<not> loading (st w1) \<and> status (st w1) = ''Scanning face...'' \<and> requests w1 = [] \<and>
       capture w1 = NoCapture \<and> qrImage (st w1) = None \<and> user (st w1) = None) \<and>
   (let w1 = toBlob_callback None (scanFace_basic initial mount)
    in \<not> loading (st w1) \<and> status (st w1) = ''Scanning face...'' \<and> requests w1 = [] \<and>
       capture w1 = NoCapture \<and> qrImage (st w1) = None \<and> user (st w1) = None)"
proof -
  have c: "\<not> loading initial" "\<not> truthy (qrImage initial)"
    by (simp_all add: initial_def truthy_def)
  have d: "requests mount = []" "qrImage (st mount) = None" "user (st mount) = None"
    by (simp_all add: mount_def initial_def)
  show ?thesis
    using c d null_blob_leaves_scanning [OF c, of mount]
    by (simp add: Let_def SCANNING_def)
qed

section \<open>The outcome of a submission\<close>

lemma halted_step:
  assumes h: "halted w" and e: "ev \<noteq> ScanAgain"
  shows "halted (step ev w) \<and> scanCalls (step ev w) = scanCalls w"
proof (cases "mounted w \<and> ev \<noteq> Unmount")
  case False
  then show ?thesis using h by (auto simp: step_def halted_def)
next
  case True
  have k: "st (handle ev w) = st w \<and> capture (handle ev w) = capture w \<and>
           modelsPending (handle ev w) = modelsPending w \<and>
           scanCalls (handle ev w) = scanCalls w"
  proof (cases ev)
    case (Frame f)
    show ?thesis
      using detectFaces_cases [of f w] h unfolding Frame
      by (auto simp: handle_def halted_def)
  next
    case (CameraGranted n)
    show ?thesis unfolding CameraGranted
      by (simp add: handle_def startCamera_granted_def Let_def split: option.splits)
  qed (use h e in \<open>simp_all add: handle_def halted_def startCamera_denied_def\<close>)
  have "status (snap (eff (commit (handle ev w)))) = status (st (handle ev w))"
    using commit_deps [of "handle ev w"] by (simp add: same_deps_def)
  then show ?thesis
    using True h k by (simp add: step_def halted_def)
qed

lemma halted_run:
  "halted w \<Longrightarrow> ScanAgain \<notin> set evs \<Longrightarrow> scanCalls (run evs w) = scanCalls w"
proof (induction evs arbitrary: w)
  case Nil
  then show ?case by simp
next
  case (Cons ev evs)
  from Cons.prems have "halted (step ev w)" "scanCalls (step ev w) = scanCalls w"
    using halted_step [of w ev] by auto
  with Cons show ?case by simp
qed

text \<open>
  C3. When the request of a submission in flight settles with a response whose success
  flag is true, the component stores the returned QR image and user record and sets the
  status to the success marker; and whatever happens afterwards, as long as Scan Again
  is not pressed, the detection loop makes no further call of \<^verbatim>\<open>scanFace\<close>.
\<close>

theorem success_halts_triggers:
  assumes "w = run evs0 mount" and "mounted w" and "capture w = AwaitResponse"
    and "ScanAgain \<notin> set evs"
  shows "let w1 = step (Responded (Succeeded q u)) w
         in qrImage (st w1) = Some q \<and> user (st w1) = Some u \<and>
            status (st w1) = QR_GENERATED \<and>
            scanCalls (run evs w1) = scanCalls w1"
proof -
  let ?w1 = "step (Responded (Succeeded q u)) w"
  have c: "consistent w" using assms(1) by (simp add: consistent_reachable)
  then have mp: "\<not> modelsPending w"
    using assms(3) by (auto simp: consistent_def in_flight_ok_def)
  have s: "?w1 = commit (post_settled (Succeeded q u) w)"
    using assms by (simp add: step_def handle_def)
  have f: "qrImage (st ?w1) = Some q" "user (st ?w1) = Some u" "status (st ?w1) = QR_GENERATED"
    "capture ?w1 = NoCapture" "\<not> modelsPending ?w1"
    using mp by (simp_all add: s post_settled_def Let_def)
  have "status (snap (eff ?w1)) = status (st (post_settled (Succeeded q u) w))"
    using commit_deps [of "post_settled (Succeeded q u) w"] by (simp add: s same_deps_def)
  then have "halted ?w1"
    using f by (simp add: halted_def s)
  then have "scanCalls (run evs ?w1) = scanCalls ?w1"
    using assms(4) by (rule halted_run)
  with f show ?thesis by (simp add: Let_def)
qed

theorem success_halts_triggers_witness:
  "(let w = run (first_trigger @ [BlobReady (Some ''jpeg'')]) mount;
        w1 = step (Responded (Succeeded ''data:image/png;base64,AAAA'' asha)) w;
        evs = [Frame (face_at 12000), Frame (face_at 14000), Frame (face_at 16000)]
    in mounted w \<and> capture w = AwaitResponse \<and> ScanAgain \<notin> set evs \<and>
       qrImage (st w1) = Some ''data:image/png;base64,AAAA'' \<and> user (st w1) = Some asha \<and>
       status (st w1) = QR_GENERATED \<and> scanCalls (run evs w1) = scanCalls w1)"
proof -
  let ?w = "run (first_trigger @ [BlobReady (Some ''jpeg'')]) mount"
  let ?evs = "[Frame (face_at 12000), Frame (face_at 14000), Frame (face_at 16000)]"
  have a: "mounted ?w" "capture ?w = AwaitResponse"
    by code_simp+
  have b: "ScanAgain \<notin> set ?evs" by simp
  show ?thesis
    using a b success_halts_triggers [OF refl a b, of "''data:image/png;base64,AAAA''" asha]
    by (simp add: Let_def)
qed

text \<open>
  C6, as amended. When the request of a submission in flight settles with a
  \<^verbatim>\<open>success: false\<close> response or with an error, the status becomes the message supplied
  if there is one and it is not empty, and the fallback \<^verbatim>\<open>Face not recognized\<close> text
  otherwise; the loading flag is cleared and the QR image is untouched. Unless that
  status is the success marker, the loop stays armed: the condition of the basic
  variant's interval holds, and in the enhanced variant a face seen on a frame \<open>g\<close> and
  still there on a frame \<open>h\<close> more than 1000 ms later makes the loop call \<^verbatim>\<open>scanFace\<close>
  again at \<open>h\<close> (the clock being epoch milliseconds: not 0 at \<open>g\<close>, above 3000 at
  \<open>h\<close>).
\<close>

theorem failure_status_and_retry:
  assumes "w = run evs mount" and "mounted w" and "capture w = AwaitResponse"
    and "out = Refused m \<or> out = Failed m"
  shows "let w1 = step (Responded out) w
         in status (st w1) =
              (case m of None \<Rightarrow> NOT_RECOGNIZED
               | Some s \<Rightarrow> if s = [] then NOT_RECOGNIZED else s) \<and>
            \<not> loading (st w1) \<and> qrImage (st w1) = qrImage (st w) \<and>
            (status (st w1) \<noteq> QR_GENERATED \<longrightarrow>
               interval_armed (st w1) \<and>
               (showing_face g \<and> showing_face h \<and> now g \<noteq> 0 \<and>
                now h - now g > DETECTION_STABILITY_DELAY \<and> now h > SCAN_COOLDOWN \<longrightarrow>
                  scanCalls (step (Frame h) (step (Frame g) w1)) = now h # scanCalls w1 \<and>
                  capture (step (Frame h) (step (Frame g) w1)) = AwaitBlob))"
proof -
  let ?w' = "post_settled out w"
  let ?w1 = "step (Responded out) w"
  have c: "consistent w" using assms(1) by (simp add: consistent_reachable)
  have s: "?w1 = commit ?w'"
    using assms by (simp add: step_def handle_def)
  have f: "status (st ?w') = or_else m NOT_RECOGNIZED" "\<not> loading (st ?w')"
    "qrImage (st ?w') = qrImage (st w)" "modelLoaded (st ?w') = modelLoaded (st w)"
    "videoRef ?w' = videoRef w" "mounted ?w' = mounted w" "eff ?w' = eff w"
    using assms(4) by (auto simp: post_settled_def Let_def)
  have q: "\<not> truthy (qrImage (st w))"
    using c assms(3) by (auto simp: consistent_def in_flight_ok_def)
  have a: "status (st ?w') \<noteq> QR_GENERATED \<Longrightarrow> armed ?w1"
    unfolding s using c assms(2,3) f by (intro settled_armed [of w]) simp_all
  have r: "status (st ?w') \<noteq> QR_GENERATED \<Longrightarrow> showing_face g \<Longrightarrow> showing_face h \<Longrightarrow>
           now g \<noteq> 0 \<Longrightarrow> now h - now g > DETECTION_STABILITY_DELAY \<Longrightarrow>
           now h > SCAN_COOLDOWN \<Longrightarrow>
           scanCalls (step (Frame h) (step (Frame g) ?w1)) = now h # scanCalls ?w1 \<and>
           capture (step (Frame h) (step (Frame g) ?w1)) = AwaitBlob"
    using armed_retrigger [OF a, of g h] by simp
  have i: "status (st ?w') \<noteq> QR_GENERATED \<Longrightarrow> interval_armed (st ?w1)"
    using f q by (simp add: s interval_armed_def)
  have "status (st ?w1) = (case m of None \<Rightarrow> NOT_RECOGNIZED
               | Some s \<Rightarrow> if s = [] then NOT_RECOGNIZED else s)"
    using f by (simp add: s or_else_def)
  moreover have "\<not> loading (st ?w1)" "qrImage (st ?w1) = qrImage (st w)"
    using f by (simp_all add: s)
  moreover have "status (st ?w1) = status (st ?w')" by (simp add: s)
  ultimately show ?thesis
    using r i unfolding Let_def by metis
qed

theorem failure_status_and_retry_witness:
  "mounted awaiting_response \<and> capture awaiting_response = AwaitResponse \<and>
   status (st (step (Responded (Refused (Some ''Unknown face''))) awaiting_response)) =
     ''Unknown face'' \<and>
   status (st (step (Responded (Refused (Some ''Unknown face''))) awaiting_response))
     \<noteq> QR_GENERATED \<and>
   showing_face (face_at 11100) \<and> showing_face (face_at 12101) \<and>
   scanCalls (step (Frame (face_at 12101)) (step (Frame (face_at 11100))
      (step (Responded (Refused (Some ''Unknown face''))) awaiting_response))) =
     [12101, 11001]"
proof -
  have a: "mounted awaiting_response" "capture awaiting_response = AwaitResponse"
    by code_simp+
  have b: "status (st (step (Responded (Refused (Some ''Unknown face''))) awaiting_response))
     \<noteq> QR_GENERATED"
    by code_simp
  have d: "showing_face (face_at 11100)" "showing_face (face_at 12101)"
    "now (face_at 11100) \<noteq> 0"
    "now (face_at 12101) - now (face_at 11100) > DETECTION_STABILITY_DELAY"
    "now (face_at 12101) > SCAN_COOLDOWN"
    by code_simp+
  have e: "scanCalls (step (Responded (Refused (Some ''Unknown face''))) awaiting_response)
             = [11001]"
    by code_simp
  have r: "awaiting_response = run (first_trigger @ [BlobReady (Some ''jpeg'')]) mount"
    by (simp add: awaiting_response_def)
  show ?thesis
    using a b d e
      failure_status_and_retry [OF r a, of "Refused (Some ''Unknown face'')"
        "Some ''Unknown face''" "face_at 11100" "face_at 12101"]
    by (simp add: Let_def face_at_def)
qed

text \<open>
  C6 as stated fails in two places. A message that is present and empty is not what the
  status is set to (\<^verbatim>\<open>||\<close> takes the fallback); and a refusal whose message is the
  success marker leaves a status that the trigger condition rejects, so that a face
  held for nine seconds makes no further call of \<^verbatim>\<open>scanFace\<close>.
\<close>

theorem failure_status_counterexample:
  "status (st (step (Responded (Refused (Some ''''))) awaiting_response)) \<noteq> '''' \<and>
   status (st (step (Responded (Failed (Some ''''))) awaiting_response)) \<noteq> '''' \<and>
   scanCalls (step (Responded (Refused (Some QR_GENERATED))) awaiting_response) = [11001] \<and>
   scanCalls (run [Frame (face_at 12000), Frame (face_at 13500), Frame (face_at 17000),
                   Frame (face_at 21000)]
                (step (Responded (Refused (Some QR_GENERATED))) awaiting_response)) = [11001]"
  by code_simp

section \<open>Reset and teardown\<close>

lemma resetScan_fields:
  "qrImage (st (resetScan w)) = None \<and> user (st (resetScan w)) = None \<and>
   status (st (resetScan w)) = ''Idle'' \<and> loading (st (resetScan w)) = loading (st w) \<and>
   modelLoaded (st (resetScan w)) = modelLoaded (st w) \<and>
   resetScan w = w\<lparr>st := st (resetScan w)\<rparr>"
  by (simp add: resetScan_def IDLE_def)

text \<open>Once the video element in the tree has no stream and none is on its way, the
  detection loop never calls \<^verbatim>\<open>scanFace\<close> again; that is the state Scan Again leaves.\<close>

lemma camera_lost_step:
  assumes l: "camera_lost w"
  shows "camera_lost (step ev w) \<and> scanCalls (step ev w) = scanCalls w"
proof (cases "mounted w \<and> ev \<noteq> Unmount")
  case False
  then show ?thesis using l
    by (auto simp: step_def camera_lost_def camera_settled_def bound_def)
next
  case True
  have k: "handle ev w = w \<or> (\<exists>e. handle ev w = w\<lparr>eff := e\<rparr>)"
  proof (cases ev)
    case (Frame f)
    show ?thesis
      using detectFaces_cases [of f w] l unfolding Frame
      by (auto simp: handle_def camera_lost_def)
  qed (use l in \<open>simp_all add: handle_def camera_lost_def camera_settled_def\<close>)
  then have h: "st (handle ev w) = st w" "videoRef (handle ev w) = videoRef w"
    "capture (handle ev w) = capture w" "cameraPending (handle ev w) = cameraPending w"
    "modelsPending (handle ev w) = modelsPending w" "scanCalls (handle ev w) = scanCalls w"
    by auto
  have b: "bound (handle ev w) = bound w" using h by (simp add: bound_def)
  show ?thesis
    using True l h b
    by (simp add: step_def camera_lost_def camera_settled_def commit_bound)
qed

lemma camera_lost_run: "camera_lost w \<Longrightarrow> scanCalls (run evs w) = scanCalls w"
proof (induction evs arbitrary: w)
  case Nil
  then show ?case by simp
next
  case (Cons ev evs)
  from Cons.prems have "camera_lost (step ev w)" "scanCalls (step ev w) = scanCalls w"
    using camera_lost_step [of w ev] by auto
  with Cons show ?case by simp
qed

lemma no_scan_after_reset:
  assumes "w = run evs0 mount" and "mounted w" and "truthy (qrImage (st w))"
  shows "scanCalls (run evs (step ScanAgain w)) = scanCalls w"
proof -
  have k: "camera_ok w" and c: "consistent w"
    using assms(1) by (simp_all add: camera_ok_reachable consistent_reachable)
  from k assms(3) have v: "videoRef w = None" "camera_settled w"
    by (auto simp: camera_ok_def)
  from c assms(3) have p: "capture w = NoCapture"
    by (auto simp: consistent_def in_flight_ok_def)
  have s: "step ScanAgain w = commit (resetScan w)"
    using assms by (simp add: step_def handle_def)
  have "videoRef (commit (resetScan w)) = Some \<lparr>srcObject = None\<rparr>"
    using v by (simp add: commit_def render_def resetScan_def Let_def truthy_def)
  then have "camera_lost (step ScanAgain w)"
    using v p by (simp add: s camera_lost_def camera_settled_def bound_def resetScan_def truthy_def)
  then have "scanCalls (run evs (step ScanAgain w)) = scanCalls (step ScanAgain w)"
    by (rule camera_lost_run)
  then show ?thesis by (simp add: s resetScan_def)
qed

theorem no_scan_after_reset_witness:
  "mounted result_shown \<and> truthy (qrImage (st result_shown)) \<and>
   scanCalls result_shown = [11001] \<and>
   scanCalls (run [Frame (face_at 20000), Frame (face_at 21500), CameraGranted 1,
                   Frame (face_at 25000)] (step ScanAgain result_shown)) = [11001]"
proof -
  have r: "result_shown = run (first_trigger @ [BlobReady (Some ''jpeg''),
      Responded (Succeeded ''data:image/png;base64,AAAA'' asha)]) mount"
    by (simp add: result_shown_def awaiting_response_def run_append)
  have a: "mounted result_shown" "truthy (qrImage (st result_shown))"
    by code_simp+
  have b: "scanCalls result_shown = [11001]" by code_simp
  show ?thesis
    using a b no_scan_after_reset [OF r a, of "[Frame (face_at 20000), Frame (face_at 21500),
      CameraGranted 1, Frame (face_at 25000)]"]
    by simp
qed

text \<open>
  C7 (the code falls short of the claim). \<^verbatim>\<open>resetScan\<close> clears the QR image and the user
  record, sets the status to \<^verbatim>\<open>Idle\<close> and touches nothing else, and the detection effect
  is started again. But the video element the camera stream was bound to left the tree
  when the result card was displayed, the element rendered after the reset has no
  \<^verbatim>\<open>srcObject\<close>, and \<^verbatim>\<open>startCamera\<close> runs on mount only: every later call of
  \<^verbatim>\<open>detectFaces\<close> stops at the test of \<^verbatim>\<open>video.readyState\<close>. Evaluated after the first
  result: a face held from 20000 to 30000 makes no call of \<^verbatim>\<open>scanFace\<close>.
\<close>

theorem scan_again_leaves_camera_unbound:
  "truthy (qrImage (st result_shown)) \<and>
   st (step ScanAgain result_shown) =
     \<lparr>status = ''Idle'', loading = False, qrImage = None, user = None, modelLoaded = True\<rparr> \<and>
   streams (step ScanAgain result_shown) = [[True]] \<and>
   videoRef (step ScanAgain result_shown) = Some \<lparr>srcObject = None\<rparr> \<and>
   animationFrame (eff (step ScanAgain result_shown)) \<and>
   scanCalls (step ScanAgain result_shown) = [11001] \<and>
   scanCalls (run [ScanAgain, Frame (face_at 20000), Frame (face_at 21500),
                   Frame (face_at 25000), Frame (face_at 30000)] result_shown) = [11001]"
  by code_simp

text \<open>\<^verbatim>\<open>stopCamera\<close> stops every track of the stream its ref leads to; teardown while the
  result card is displayed finds no ref and stops nothing.\<close>

lemma stopCamera_bound:
  assumes "videoRef w = Some v" and "srcObject v = Some h" and "h < length (streams w)"
  shows "filter (\<lambda>t. t) (streams (stopCamera w) ! h) = []"
  using assms by (simp add: stopCamera_def)

lemma unmount_result_shown:
  assumes "w = run evs mount" and "truthy (qrImage (st w))"
  shows "streams (step Unmount w) = streams w"
proof -
  have "camera_ok w" using assms(1) by (simp add: camera_ok_reachable)
  then have "videoRef w = None" using assms(2) by (auto simp: camera_ok_def)
  then show ?thesis
    by (simp add: step_def)
qed

theorem unmount_result_shown_witness:
  "truthy (qrImage (st result_shown)) \<and> streams result_shown = [[True]] \<and>
   streams (step Unmount result_shown) = [[True]]"
proof -
  have r: "result_shown = run (first_trigger @ [BlobReady (Some ''jpeg''),
      Responded (Succeeded ''data:image/png;base64,AAAA'' asha)]) mount"
    by (simp add: result_shown_def awaiting_response_def run_append)
  have a: "truthy (qrImage (st result_shown))" by code_simp
  have b: "streams result_shown = [[True]]" by code_simp
  show ?thesis
    using a b unmount_result_shown [OF r a] by simp
qed

text \<open>More generally, teardown stops no track in any state: the ref is cleared before the
  cleanup reads it.\<close>

lemma unmount_stops_nothing: "streams (step Unmount w) = streams w"
  by (simp add: step_def)

text \<open>
  C8 (the code falls short of the claim). \<^verbatim>\<open>stopCamera\<close> finds the stream through
  \<^verbatim>\<open>videoRef.current\<close>. While the result card is displayed the ref is null, and after
  Scan Again it is a new element with no stream: teardown in either state stops no
  track, and the one track of the acquired stream stays live.
\<close>

theorem teardown_after_result_leaves_track_live:
  "active_tracks result_shown = 1 \<and> videoRef result_shown = None \<and>
   mounted result_shown \<and>
   \<not> mounted (step Unmount result_shown) \<and>
   streams (step Unmount result_shown) = [[True]] \<and>
   active_tracks (step Unmount result_shown) = 1 \<and>
   active_tracks (run [ScanAgain, Unmount] result_shown) = 1"
  by code_simp

end
